theory Spec2Isabelle
  imports Main
begin

section \<open>Python values, errors and insertion-ordered dictionaries\<close>

text \<open>
  The option values that travel through keyword arguments are heterogeneous Python
  objects. Only their identity and the test \<^verbatim>\<open>is None\<close> matter to the code below.
\<close>

datatype pyval = PyNone | PyBool bool | PyInt int | PyStr string | PyObject string

datatype error =
    ValueError string
  | KeyError pyval
  | TypeError string
  | AttributeError string
  | Exception string

text \<open>
  A \<^verbatim>\<open>dict\<close> / \<^verbatim>\<open>OrderedDict\<close> is an association list in insertion order.
  Assigning to a key that is present keeps the key's position and replaces its value;
  assigning to a new key appends it.
\<close>

type_synonym ('k, 'v) odict = "('k \<times> 'v) list"

definition od_keys :: "('k, 'v) odict \<Rightarrow> 'k list" where
  "od_keys d = map fst d"

definition od_get :: "('k, 'v) odict \<Rightarrow> 'k \<Rightarrow> 'v option" where
  "od_get d k = map_of d k"

fun od_set :: "('k, 'v) odict \<Rightarrow> 'k \<Rightarrow> 'v \<Rightarrow> ('k, 'v) odict" where
  "od_set [] k v = [(k, v)]"
| "od_set ((k', v') # d) k v =
     (if k' = k then (k, v) # d else (k', v') # od_set d k v)"

text \<open>The elements of a list in order of first occurrence.\<close>

fun first_occurrences :: "'a list \<Rightarrow> 'a list" where
  "first_occurrences [] = []"
| "first_occurrences (x # xs) = x # first_occurrences (filter (\<lambda>y. y \<noteq> x) xs)"

definition od_del :: "('k, 'v) odict \<Rightarrow> 'k \<Rightarrow> ('k, 'v) odict" where
  "od_del d k = filter (\<lambda>kv. fst kv \<noteq> k) d"

text \<open>\<^verbatim>\<open>d.update(items)\<close> assigns the items from left to right.\<close>

fun od_update :: "('k, 'v) odict \<Rightarrow> ('k \<times> 'v) list \<Rightarrow> ('k, 'v) odict" where
  "od_update d [] = d"
| "od_update d ((k, v) # items) = od_update (od_set d k v) items"

text \<open>\<^verbatim>\<open>OrderedDict(items)\<close>.\<close>

definition OrderedDict :: "('k \<times> 'v) list \<Rightarrow> ('k, 'v) odict" where
  "OrderedDict items = od_update [] items"

text \<open>\<^verbatim>\<open>d.pop(k)\<close> raises \<^verbatim>\<open>KeyError\<close> on a missing key (here: \<open>None\<close>);
  \<^verbatim>\<open>d.pop(k, default)\<close> returns the default and leaves the dictionary alone.\<close>

definition od_pop :: "('k, 'v) odict \<Rightarrow> 'k \<Rightarrow> ('v \<times> ('k, 'v) odict) option" where
  "od_pop d k = (case od_get d k of None \<Rightarrow> None | Some v \<Rightarrow> Some (v, od_del d k))"

definition od_pop_default :: "('k, 'v) odict \<Rightarrow> 'k \<Rightarrow> 'v \<Rightarrow> 'v \<times> ('k, 'v) odict" where
  "od_pop_default d k dflt =
     (case od_get d k of None \<Rightarrow> (dflt, d) | Some v \<Rightarrow> (v, od_del d k))"

type_synonym kwargs = "(string, pyval) odict"

section \<open>\<^verbatim>\<open>ORMField\<close> (types.py, lines 26-88)\<close>

text \<open>
  An \<^verbatim>\<open>ORMField\<close> is an \<^verbatim>\<open>OrderedType\<close>: it carries a creation counter, taken from
  the argument \<^verbatim>\<open>_creation_counter\<close> when that is truthy and from the process-wide
  counter otherwise (\<^verbatim>\<open>_creation_counter or self.gen_counter()\<close>), and the dictionary
  \<^verbatim>\<open>kwargs\<close>.
\<close>

record orm_field =
  creation_counter :: int
  kwargs :: kwargs

text \<open>The names of the six documented options, in the order of the dictionary literal.\<close>

definition common_names :: "string list" where
  "common_names =
     [''model_attr'', ''type'', ''required'', ''description'', ''deprecation_reason'',
      ''batching'']"

text \<open>
  \<^verbatim>\<open>OrderedType.__init__\<close>: the counter of the new object and the value of the
  process-wide counter afterwards.
\<close>

definition OrderedType_init :: "int option \<Rightarrow> int \<Rightarrow> int \<times> int" where
  "OrderedType_init cc counter =
     (case cc of
        None \<Rightarrow> (counter, counter + 1)
      | Some c \<Rightarrow> if c = 0 then (counter, counter + 1) else (c, counter))"

text \<open>
  \<^verbatim>\<open>ORMField.__init__(model_attr, type, required, description, deprecation_reason,
  batching, _creation_counter, **field_kwargs)\<close>. Python binds a keyword that names one of
  the six parameters to that parameter, so \<open>field_kwargs\<close> never holds one of
  \<^const>\<open>common_names\<close>.
\<close>

definition ORMField_init ::
  "pyval \<Rightarrow> pyval \<Rightarrow> pyval \<Rightarrow> pyval \<Rightarrow> pyval \<Rightarrow> pyval \<Rightarrow> int option \<Rightarrow> kwargs \<Rightarrow> int
     \<Rightarrow> orm_field \<times> int" where
  "ORMField_init model_attr type required description deprecation_reason batching cc
       field_kwargs counter =
     (let (c, counter') = OrderedType_init cc counter;
          common_kwargs =
            [(''model_attr'', model_attr), (''type'', type), (''required'', required),
             (''description'', description), (''deprecation_reason'', deprecation_reason),
             (''batching'', batching)];
          common_kwargs = filter (\<lambda>kv. snd kv \<noteq> PyNone) common_kwargs
      in (\<lparr>creation_counter = c, kwargs = od_update field_kwargs common_kwargs\<rparr>, counter'))"

section \<open>The inspected model and the attribute classifier (types.py, lines 110-118)\<close>

text \<open>
  What \<^verbatim>\<open>sqlalchemy.inspect(model)\<close> reports. A descriptor is told apart by its class,
  which is what the \<^verbatim>\<open>isinstance\<close> tests of \<^verbatim>\<open>construct_fields\<close> look at; the
  payload names the descriptor. \<open>OtherDescriptor\<close> stands for every descriptor of
  \<^verbatim>\<open>all_orm_descriptors\<close> that is none of the four kinds (an association proxy, say).
\<close>

datatype descriptor =
    ColumnProperty string
  | CompositeProperty string
  | RelationshipProperty string
  | hybrid_property string
  | OtherDescriptor string

record inspected_model =
  column_attrs :: "(string \<times> descriptor) list"
  composites :: "(string \<times> descriptor) list"
  all_orm_descriptors :: "(string \<times> descriptor) list"
  relationships :: "(string \<times> descriptor) list"

fun is_hybrid_property :: "descriptor \<Rightarrow> bool" where
  "is_hybrid_property (hybrid_property _) = True"
| "is_hybrid_property _ = False"

definition hybrid_items :: "inspected_model \<Rightarrow> (string \<times> descriptor) list" where
  "hybrid_items m = filter (\<lambda>item. is_hybrid_property (snd item)) (all_orm_descriptors m)"

definition all_model_attrs :: "inspected_model \<Rightarrow> (string, descriptor) odict" where
  "all_model_attrs m =
     OrderedDict (column_attrs m @ composites m @ hybrid_items m @ relationships m)"

section \<open>Declared types, shared override objects and the registry\<close>

text \<open>
  A class is its name and its \<^verbatim>\<open>__dict__\<close>. An attribute of a class is a reference to
  an \<^verbatim>\<open>ORMField\<close> object, a function, or anything else. \<^verbatim>\<open>ORMField\<close> objects are
  mutable and shared between every type whose \<^verbatim>\<open>__mro__\<close> holds the declaring class, so
  they live in a heap and a class holds references.
\<close>

datatype class_attr = ORMFieldRef nat | FunctionAttr string | OtherAttr pyval

record py_class =
  cls_name :: string
  cls_dict :: "(string \<times> class_attr) list"

text \<open>\<open>type_name\<close> is \<^verbatim>\<open>obj_type.__name__\<close>; \<open>type_mro\<close> is \<^verbatim>\<open>obj_type.__mro__\<close>, the
  type's own class first.\<close>

record obj_type =
  type_name :: string
  type_mro :: "py_class list"

text \<open>
  The state \<^verbatim>\<open>construct_fields\<close> reads and writes: the declared \<^verbatim>\<open>ORMField\<close> objects,
  the process-wide \<^verbatim>\<open>OrderedType.creation_counter\<close>, and the registry's table of the
  attribute registered for a type and field name.
\<close>

record state =
  heap :: "nat \<Rightarrow> orm_field"
  global_counter :: int
  registry :: "((string \<times> string) \<times> descriptor) list"

text \<open>\<^verbatim>\<open>getattr(obj_type, name, None)\<close>: the first class along the \<^verbatim>\<open>__mro__\<close> that has
  the name.\<close>

fun getattr_mro :: "py_class list \<Rightarrow> string \<Rightarrow> class_attr option" where
  "getattr_mro [] n = None"
| "getattr_mro (c # cs) n =
     (case od_get (cls_dict c) n of Some a \<Rightarrow> Some a | None \<Rightarrow> getattr_mro cs n)"

datatype resolver = CustomResolver string | AttrResolver string

text \<open>
  Modelled from the spec: \<^verbatim>\<open>get_custom_resolver\<close> and \<^verbatim>\<open>get_attr_resolver\<close> are
  imported from \<^verbatim>\<open>resolvers.py\<close>, which is not among the source files. The spec: "a
  user-defined resolver function named after the exposed field name takes precedence;
  otherwise fall back to a plain attribute-read resolver bound to the target attribute
  name".
\<close>

definition get_custom_resolver :: "obj_type \<Rightarrow> string \<Rightarrow> resolver option" where
  "get_custom_resolver t orm_field_name =
     (case getattr_mro (type_mro t) (''resolve_'' @ orm_field_name) of
        Some (FunctionAttr f) \<Rightarrow> Some (CustomResolver f)
      | _ \<Rightarrow> None)"

definition get_attr_resolver :: "obj_type \<Rightarrow> string \<Rightarrow> resolver" where
  "get_attr_resolver t attr_name = AttrResolver attr_name"

text \<open>
  Modelled from the spec: \<^verbatim>\<open>Registry.register_orm_field\<close> is defined in
  \<^verbatim>\<open>registry.py\<close>, which is not among the source files. The spec: "Record, in the
  registry, that this exposed field name maps to this attribute descriptor".
\<close>

definition register_orm_field ::
  "((string \<times> string) \<times> descriptor) list \<Rightarrow> string \<Rightarrow> string \<Rightarrow> descriptor
     \<Rightarrow> ((string \<times> string) \<times> descriptor) list" where
  "register_orm_field reg tn field_name attr = od_set reg (tn, field_name) attr"

section \<open>\<^verbatim>\<open>construct_fields\<close> (types.py, lines 91-181)\<close>

text \<open>
  The conversion functions of \<^verbatim>\<open>converter.py\<close> are pluggable collaborators: a field is
  the conversion that was called together with the arguments it was called with (the
  registry argument is the one registry of the state). A conversion also creates graphene
  objects (a \<^verbatim>\<open>Field\<close>, wrappers such as \<^verbatim>\<open>NonNull\<close>), each an \<^verbatim>\<open>OrderedType\<close> that takes
  the next value of the process-wide counter. Neither \<^verbatim>\<open>converter.py\<close> nor graphene is
  among the source files, so the functions below take a parameter \<open>conversion_counter\<close>:
  the value of the counter after a conversion, from the conversion and the value before
  it. The counters those objects carry are not part of a field here, and a conversion is
  taken to return: one that raises ends the call as the raises below do.
\<close>

datatype field =
    convert_sqlalchemy_column descriptor resolver kwargs
  | convert_sqlalchemy_relationship descriptor string pyval pyval string kwargs
  | convert_sqlalchemy_composite descriptor resolver
  | convert_sqlalchemy_hybrid_method descriptor resolver kwargs

text \<open>Lines 120-125. A tuple is truthy when it is not empty.\<close>

definition auto_orm_field_names ::
  "(string, descriptor) odict \<Rightarrow> string list \<Rightarrow> string list \<Rightarrow> string list" where
  "auto_orm_field_names attrs only_fields exclude_fields =
     filter (\<lambda>attr_name.
        \<not> ((only_fields \<noteq> [] \<and> attr_name \<notin> set only_fields) \<or> attr_name \<in> set exclude_fields))
       (od_keys attrs)"

text \<open>Lines 127-134: the \<^verbatim>\<open>ORMField\<close> attributes of every class of the \<^verbatim>\<open>__mro__\<close>,
  base classes first, then sorted (stably, as \<^verbatim>\<open>sorted\<close> is) by creation counter.\<close>

fun orm_fields_of_dict :: "(string \<times> class_attr) list \<Rightarrow> (string \<times> nat) list" where
  "orm_fields_of_dict [] = []"
| "orm_fields_of_dict ((n, ORMFieldRef r) # d) = (n, r) # orm_fields_of_dict d"
| "orm_fields_of_dict (_ # d) = orm_fields_of_dict d"

definition gathered_orm_fields :: "obj_type \<Rightarrow> (string \<times> nat) list" where
  "gathered_orm_fields t =
     concat (map (\<lambda>base. orm_fields_of_dict (cls_dict base)) (rev (type_mro t)))"

definition custom_orm_fields_items :: "(nat \<Rightarrow> orm_field) \<Rightarrow> obj_type \<Rightarrow> (string \<times> nat) list" where
  "custom_orm_fields_items h t =
     sort_key (\<lambda>item. creation_counter (h (snd item))) (gathered_orm_fields t)"

text \<open>Lines 136-144.\<close>

definition cannot_map_message :: "string \<Rightarrow> string \<Rightarrow> string" where
  "cannot_map_message tn orm_field_name =
     ''Cannot map ORMField to a model attribute.'' @ [CHR 0x0A] @ ''Field: '' @ [CHR 0x27]
     @ tn @ ''.'' @ orm_field_name @ [CHR 0x27]"

definition in_attrs :: "pyval \<Rightarrow> (string, descriptor) odict \<Rightarrow> bool" where
  "in_attrs v attrs = (case v of PyStr a \<Rightarrow> a \<in> set (od_keys attrs) | _ \<Rightarrow> False)"

definition resolved_attr_name :: "kwargs \<Rightarrow> string \<Rightarrow> pyval" where
  "resolved_attr_name kw orm_field_name =
     (case od_get kw ''model_attr'' of None \<Rightarrow> PyStr orm_field_name | Some v \<Rightarrow> v)"

fun set_model_attrs ::
  "(string, descriptor) odict \<Rightarrow> string \<Rightarrow> (string \<times> nat) list \<Rightarrow> (nat \<Rightarrow> orm_field)
     \<Rightarrow> error + (nat \<Rightarrow> orm_field)" where
  "set_model_attrs attrs tn [] h = Inr h"
| "set_model_attrs attrs tn ((orm_field_name, r) # items) h =
     (let attr_name = resolved_attr_name (kwargs (h r)) orm_field_name
      in if \<not> in_attrs attr_name attrs
         then Inl (ValueError (cannot_map_message tn orm_field_name))
         else set_model_attrs attrs tn items
                (h(r := (h r)\<lparr>kwargs := od_set (kwargs (h r)) ''model_attr'' attr_name\<rparr>)))"

text \<open>Lines 146-151. An entry of \<^verbatim>\<open>orm_fields\<close> is a declared (shared) object or an
  object created here, which nothing else refers to.\<close>

datatype orm_entry = Declared nat | Created orm_field

fun merge_auto ::
  "string list \<Rightarrow> (string, orm_entry) odict \<Rightarrow> int \<Rightarrow> (string, orm_entry) odict \<times> int" where
  "merge_auto [] orm_fields c = (orm_fields, c)"
| "merge_auto (orm_field_name # names) orm_fields c =
     (if orm_field_name \<in> set (od_keys orm_fields) then merge_auto names orm_fields c
      else (let (f, c') = ORMField_init (PyStr orm_field_name) PyNone PyNone PyNone PyNone PyNone
                            None [] c
            in merge_auto names (od_set orm_fields orm_field_name (Created f)) c'))"

text \<open>Lines 156-176: one pass of the loop body up to the conversion. The result is the
  attribute, the field and the \<^verbatim>\<open>kwargs\<close> as the pops leave them.\<close>

definition composite_message :: "string \<Rightarrow> string \<Rightarrow> string" where
  "composite_message tn orm_field_name =
     ''ORMField kwargs for composite fields must be empty. Field: '' @ tn @ ''.''
     @ orm_field_name"

definition build_field ::
  "obj_type \<Rightarrow> (string, descriptor) odict \<Rightarrow> pyval \<Rightarrow> pyval \<Rightarrow> string \<Rightarrow> kwargs
     \<Rightarrow> error + (descriptor \<times> field \<times> kwargs)" where
  "build_field t attrs batching connection_field_factory orm_field_name kw =
     (case od_pop kw ''model_attr'' of
        None \<Rightarrow> Inl (KeyError (PyStr ''model_attr''))
      | Some (PyStr attr_name, kw1) \<Rightarrow>
          (case od_get attrs attr_name of
             None \<Rightarrow> Inl (KeyError (PyStr attr_name))
           | Some attr \<Rightarrow>
               (let resolver = (case get_custom_resolver t orm_field_name of
                                  Some r \<Rightarrow> r
                                | None \<Rightarrow> get_attr_resolver t attr_name)
                in case attr of
                     ColumnProperty _ \<Rightarrow>
                       Inr (attr, convert_sqlalchemy_column attr resolver kw1, kw1)
                   | RelationshipProperty _ \<Rightarrow>
                       (let (batching', kw2) = od_pop_default kw1 ''batching'' batching
                        in Inr (attr, convert_sqlalchemy_relationship attr (type_name t)
                                  connection_field_factory batching' orm_field_name kw2, kw2))
                   | CompositeProperty _ \<Rightarrow>
                       if attr_name \<noteq> orm_field_name \<or> kw1 \<noteq> []
                       then Inl (ValueError (composite_message (type_name t) orm_field_name))
                       else Inr (attr, convert_sqlalchemy_composite attr resolver, kw1)
                   | hybrid_property _ \<Rightarrow>
                       Inr (attr, convert_sqlalchemy_hybrid_method attr resolver kw1, kw1)
                   | OtherDescriptor _ \<Rightarrow> Inl (Exception ''Property type is not supported'')))
      | Some (v, kw1) \<Rightarrow> Inl (KeyError v))"

text \<open>Lines 154-181. A raise ends the call; the state it leaves behind is not tracked.\<close>

fun build_fields ::
  "(field \<Rightarrow> int \<Rightarrow> int) \<Rightarrow> obj_type \<Rightarrow> (string, descriptor) odict \<Rightarrow> pyval \<Rightarrow> pyval
     \<Rightarrow> (string \<times> orm_entry) list \<Rightarrow> state \<Rightarrow> (string, field) odict
     \<Rightarrow> error + ((string, field) odict \<times> state)" where
  "build_fields conversion_counter t attrs batching fac [] s fds = Inr (fds, s)"
| "build_fields conversion_counter t attrs batching fac ((orm_field_name, e) # es) s fds =
     (let orm_field = (case e of Declared r \<Rightarrow> heap s r | Created f \<Rightarrow> f)
      in case build_field t attrs batching fac orm_field_name (kwargs orm_field) of
           Inl err \<Rightarrow> Inl err
         | Inr (attr, field, kw') \<Rightarrow>
             build_fields conversion_counter t attrs batching fac es
               (s\<lparr>heap := (case e of
                             Declared r \<Rightarrow> (heap s)(r := orm_field\<lparr>kwargs := kw'\<rparr>)
                           | Created _ \<Rightarrow> heap s),
                  registry := register_orm_field (registry s) (type_name t) orm_field_name attr,
                  global_counter := conversion_counter field (global_counter s)\<rparr>)
               (od_set fds orm_field_name field))"

text \<open>The dictionary \<^verbatim>\<open>orm_fields\<close> of line 147 and the loop of lines 148-151.\<close>

definition merged_orm_fields ::
  "(string \<times> nat) list \<Rightarrow> string list \<Rightarrow> int \<Rightarrow> (string, orm_entry) odict \<times> int" where
  "merged_orm_fields items auto_names c =
     merge_auto auto_names (OrderedDict (map (\<lambda>item. (fst item, Declared (snd item))) items)) c"

text \<open>The \<^verbatim>\<open>kwargs\<close> an entry of \<^verbatim>\<open>orm_fields\<close> holds in a heap, and the declared objects
  among the entries.\<close>

definition entry_kwargs :: "(nat \<Rightarrow> orm_field) \<Rightarrow> orm_entry \<Rightarrow> kwargs" where
  "entry_kwargs h e = (case e of Declared r \<Rightarrow> kwargs (h r) | Created f \<Rightarrow> kwargs f)"

fun declared_refs :: "(string \<times> orm_entry) list \<Rightarrow> nat list" where
  "declared_refs [] = []"
| "declared_refs ((n, Declared r) # es) = r # declared_refs es"
| "declared_refs ((n, Created f) # es) = declared_refs es"

text \<open>
  The declarations of one exposed name along the \<^verbatim>\<open>__mro__\<close>, base classes first (so
  the last is the most derived one), and the declaration among them that has the greatest
  creation counter, the most derived of those with that counter.
\<close>

definition declarations_of :: "obj_type \<Rightarrow> string \<Rightarrow> (string \<times> nat) list" where
  "declarations_of t x = filter (\<lambda>item. fst item = x) (gathered_orm_fields t)"

definition greatest_declaration :: "(nat \<Rightarrow> orm_field) \<Rightarrow> obj_type \<Rightarrow> string \<Rightarrow> nat" where
  "greatest_declaration h t x =
     snd (last (filter
       (\<lambda>item. creation_counter (h (snd item))
          = Max ((\<lambda>item. creation_counter (h (snd item))) ` set (declarations_of t x)))
       (declarations_of t x)))"

text \<open>
  The declared overrides that a call of \<^verbatim>\<open>construct_fields\<close> leaves as good as it found
  them: every \<^verbatim>\<open>ORMField\<close> object is declared once, its \<^verbatim>\<open>model_attr\<close> is unset or is
  its own exposed name, and where that name is a relationship of the model its
  \<^verbatim>\<open>batching\<close> is unset or is the type's default.
\<close>

definition repeatable_overrides ::
  "(nat \<Rightarrow> orm_field) \<Rightarrow> obj_type \<Rightarrow> (string, descriptor) odict \<Rightarrow> pyval \<Rightarrow> bool" where
  "repeatable_overrides h t attrs batching \<longleftrightarrow>
     distinct (map snd (gathered_orm_fields t))
     \<and> (\<forall>item \<in> set (gathered_orm_fields t).
          resolved_attr_name (kwargs (h (snd item))) (fst item) = PyStr (fst item)
        \<and> ((\<exists>rel. od_get attrs (fst item) = Some (RelationshipProperty rel)) \<longrightarrow>
             od_get (kwargs (h (snd item))) ''batching'' \<in> {None, Some batching}))"

text \<open>\<^verbatim>\<open>construct_fields(obj_type, model, registry, only_fields, exclude_fields, batching,
  connection_field_factory)\<close>; \<open>model\<close> is what \<^verbatim>\<open>sqlalchemy.inspect(model)\<close> returns, the
  registry is part of the state, and \<open>conversion_counter\<close> is the effect of the conversion
  functions on the process-wide counter.\<close>

definition construct_fields ::
  "(field \<Rightarrow> int \<Rightarrow> int) \<Rightarrow> obj_type \<Rightarrow> inspected_model \<Rightarrow> string list \<Rightarrow> string list \<Rightarrow> pyval
     \<Rightarrow> pyval \<Rightarrow> state \<Rightarrow> error + ((string, field) odict \<times> state)" where
  "construct_fields conversion_counter t model only_fields exclude_fields batching
       connection_field_factory s =
     (let attrs = all_model_attrs model;
          auto_names = auto_orm_field_names attrs only_fields exclude_fields;
          items = custom_orm_fields_items (heap s) t
      in case set_model_attrs attrs (type_name t) items (heap s) of
           Inl err \<Rightarrow> Inl err
         | Inr h1 \<Rightarrow>
             (let (orm_fields, c1) = merged_orm_fields items auto_names (global_counter s)
              in build_fields conversion_counter t attrs batching connection_field_factory
                   orm_fields (s\<lparr>heap := h1, global_counter := c1\<rparr>) []))"

section \<open>\<^verbatim>\<open>SQLAlchemyObjectType\<close> (types.py, lines 191-302)\<close>

text \<open>Truthiness of a Python value.\<close>

fun truthy :: "pyval \<Rightarrow> bool" where
  "truthy PyNone = False"
| "truthy (PyBool b) = b"
| "truthy (PyInt i) = (i \<noteq> 0)"
| "truthy (PyStr s) = (s \<noteq> [])"
| "truthy (PyObject _) = True"

text \<open>The options object \<^verbatim>\<open>_meta\<close>; \<open>fields\<close> is \<^verbatim>\<open>None\<close> until a field set is
  stored.\<close>

record 'f options =
  opt_model :: pyval
  opt_registry :: pyval
  opt_fields :: "(string, 'f) odict option"
  opt_connection :: pyval
  opt_id :: pyval

definition SQLAlchemyObjectTypeOptions :: "'f options" where
  "SQLAlchemyObjectTypeOptions =
     \<lparr>opt_model = PyNone, opt_registry = PyNone, opt_fields = None, opt_connection = PyNone,
      opt_id = PyNone\<rparr>"

text \<open>
  Lines 258-270 of \<^verbatim>\<open>__init_subclass_with_meta__\<close>: the options object handed on to the
  base class, from the argument \<^verbatim>\<open>_meta\<close> (\<open>None\<close> when it is not given), the model,
  the registry, the generated fields \<^verbatim>\<open>sqla_fields\<close>, the connection and \<^verbatim>\<open>id\<close>. A
  dictionary is truthy when it is not empty.
\<close>

definition init_subclass_meta ::
  "'f options option \<Rightarrow> pyval \<Rightarrow> pyval \<Rightarrow> (string, 'f) odict \<Rightarrow> pyval \<Rightarrow> pyval \<Rightarrow> 'f options" where
  "init_subclass_meta meta_arg model reg sqla_fields connection ident =
     (let meta = (case meta_arg of None \<Rightarrow> SQLAlchemyObjectTypeOptions | Some m \<Rightarrow> m);
          fields' = (case opt_fields meta of
                       None \<Rightarrow> sqla_fields
                     | Some fs \<Rightarrow> if fs \<noteq> [] then od_update fs sqla_fields else sqla_fields)
      in meta\<lparr>opt_model := model, opt_registry := reg, opt_fields := Some fields',
              opt_connection := connection,
              opt_id := (if truthy ident then ident else PyStr ''id'')\<rparr>)"

text \<open>
  A Python object as \<^verbatim>\<open>isinstance\<close> sees it: its class and the other classes of that
  class's \<^verbatim>\<open>__mro__\<close>; \<open>obj_repr\<close> is what \<^verbatim>\<open>format\<close> prints for it.
\<close>

record py_object =
  obj_class :: string
  obj_bases :: "string list"
  obj_repr :: string

definition isinstance :: "py_object \<Rightarrow> string \<Rightarrow> bool" where
  "isinstance obj c = (c = obj_class obj \<or> c \<in> set (obj_bases obj))"

definition incompatible_message :: "py_object \<Rightarrow> string" where
  "incompatible_message root = ''Received incompatible instance \"'' @ obj_repr root @ ''\".''"

text \<open>
  \<^verbatim>\<open>is_type_of(cls, root, info)\<close>, lines 279-285. \<^verbatim>\<open>is_mapped_instance\<close> is imported
  from \<^verbatim>\<open>utils.py\<close>, which is not among the source files, and is a parameter; \<open>cls\<close> is
  the generated type and \<open>model\<close> is \<^verbatim>\<open>cls._meta.model\<close>.
\<close>

definition is_type_of ::
  "(py_object \<Rightarrow> bool) \<Rightarrow> string \<Rightarrow> string \<Rightarrow> py_object \<Rightarrow> error + bool" where
  "is_type_of is_mapped_instance cls model root =
     (if isinstance root cls then Inr True
      else if \<not> is_mapped_instance root then Inl (Exception (incompatible_message root))
      else Inr (isinstance root model))"

section \<open>The connection field (fields.py)\<close>

text \<open>
  A sort value is an enum value: a \<^verbatim>\<open>str\<close> that carries the order-by clause in its
  attribute \<^verbatim>\<open>value\<close>. A plain \<^verbatim>\<open>str\<close> has no such attribute. The argument
  \<^verbatim>\<open>sort\<close> is \<^verbatim>\<open>None\<close>, one string, or a list.
\<close>

datatype sort_value = EnumValue string pyval | PlainStr string

datatype sort_arg = SortNone | SortStr sort_value | SortList "sort_value list"

fun value_of :: "sort_value \<Rightarrow> error + pyval" where
  "value_of (EnumValue _ v) = Inr v"
| "value_of (PlainStr _) = Inl (AttributeError ''value'')"

fun values_of :: "sort_value list \<Rightarrow> error + pyval list" where
  "values_of [] = Inr []"
| "values_of (col # cols) =
     (case value_of col of
        Inl e \<Rightarrow> Inl e
      | Inr v \<Rightarrow> (case values_of cols of Inl e \<Rightarrow> Inl e | Inr vs \<Rightarrow> Inr (v # vs)))"

text \<open>
  Modelled from the spec: the query collaborator (\<^verbatim>\<open>utils.get_query\<close> and SQLAlchemy's
  \<^verbatim>\<open>Query\<close>) is not among the source files. The spec: "\<^verbatim>\<open>query(model, context) ->
  Queryable\<close>; \<^verbatim>\<open>Queryable.order_by(*clauses) -> Queryable\<close>". A query is the model and
  context it was made for and the \<^verbatim>\<open>order_by\<close> calls applied to it, each with its
  clauses in order.
\<close>

record query =
  q_model :: string
  q_context :: string
  q_order_by :: "pyval list list"

definition utils_get_query :: "string \<Rightarrow> string \<Rightarrow> query" where
  "utils_get_query model context = \<lparr>q_model = model, q_context = context, q_order_by = []\<rparr>"

definition order_by :: "query \<Rightarrow> pyval list \<Rightarrow> query" where
  "order_by q clauses = q\<lparr>q_order_by := q_order_by q @ [clauses]\<rparr>"

text \<open>\<^verbatim>\<open>UnsortedSQLAlchemyConnectionField.get_query(model, info, sort=None, **args)\<close>,
  lines 36-44; \<open>context\<close> is \<^verbatim>\<open>info.context\<close>.\<close>

definition get_query :: "string \<Rightarrow> string \<Rightarrow> sort_arg \<Rightarrow> error + query" where
  "get_query model context sort_arg =
     (let query = utils_get_query model context
      in case sort_arg of
           SortNone \<Rightarrow> Inr query
         | SortStr col \<Rightarrow>
             (case value_of col of Inl e \<Rightarrow> Inl e | Inr v \<Rightarrow> Inr (order_by query [v]))
         | SortList cols \<Rightarrow>
             (case values_of cols of Inl e \<Rightarrow> Inl e | Inr vs \<Rightarrow> Inr (order_by query vs)))"

text \<open>
  What a resolver returned: \<^verbatim>\<open>None\<close>, a \<^verbatim>\<open>Query\<close>, or a list in memory. The
  connection returned by \<^verbatim>\<open>resolve_connection\<close> is what the external
  \<^verbatim>\<open>connection_from_list_slice\<close> built, with the two attributes set on it afterwards.
\<close>

datatype 'a resolved = ResolvedNone | ResolvedQuery query | ResolvedList "'a list"

record ('a, 'c) connection =
  sliced :: 'c
  iterable :: "'a resolved"
  length_attr :: nat

text \<open>
  \<^verbatim>\<open>resolve_connection(connection_type, model, info, args, resolved)\<close>, lines 46-66.
  The parameters \<open>count\<close> (\<^verbatim>\<open>Query.count\<close>) and \<open>connection_from_list_slice\<close> are the
  external collaborators; the latter receives the resolved value, the arguments, the
  slice start, the list length, the slice length and the connection type. \<open>args\<close> is the
  \<^verbatim>\<open>sort\<close> argument (\<open>SortNone\<close> when absent) and the other arguments.
\<close>

definition resolve_connection ::
  "(query \<Rightarrow> nat)
     \<Rightarrow> ('a resolved \<Rightarrow> sort_arg \<times> kwargs \<Rightarrow> nat \<Rightarrow> nat \<Rightarrow> nat \<Rightarrow> string \<Rightarrow> 'c)
     \<Rightarrow> string \<Rightarrow> string \<Rightarrow> string \<Rightarrow> sort_arg \<times> kwargs \<Rightarrow> 'a resolved
     \<Rightarrow> error + ('a, 'c) connection" where
  "resolve_connection count connection_from_list_slice connection_type model context args
       resolved =
     (case (case resolved of
              ResolvedNone \<Rightarrow>
                (case get_query model context (fst args) of
                   Inl e \<Rightarrow> Inl e
                 | Inr q \<Rightarrow> Inr (ResolvedQuery q))
            | _ \<Rightarrow> Inr resolved) of
        Inl e \<Rightarrow> Inl e
      | Inr resolved' \<Rightarrow>
          (case (case resolved' of
                   ResolvedQuery q \<Rightarrow> Inr (count q)
                 | ResolvedList xs \<Rightarrow> Inr (length xs)
                 | ResolvedNone \<Rightarrow> Inl (TypeError ''object of type NoneType has no len()'')) of
             Inl e \<Rightarrow> Inl e
           | Inr len \<Rightarrow>
               Inr \<lparr>sliced = connection_from_list_slice resolved' args 0 len len connection_type,
                    iterable = resolved', length_attr = len\<rparr>))"

text \<open>
  The first argument of \<^verbatim>\<open>SQLAlchemyConnectionField\<close>: a subclass of \<^verbatim>\<open>Connection\<close>
  with its name and the model \<^verbatim>\<open>type.Edge.node._type._meta.model\<close> (\<open>None\<close> when
  reading it raises), or any other type.
\<close>

datatype graphene_type = ConnectionSubclass string "string option" | OtherType string

definition cannot_sort_message :: "string \<Rightarrow> string" where
  "cannot_sort_message tn =
     ''Cannot create sort argument for '' @ tn
     @ ''. A model is required. Set the \"sort\" argument to None to disabling the creation of the sort query argument''"

text \<open>
  \<^verbatim>\<open>SQLAlchemyConnectionField.__init__(type, *args, **kwargs)\<close>, lines 82-98: the keyword
  arguments handed to the base class's constructor. \<^verbatim>\<open>sort_argument_for_model\<close> is
  imported from \<^verbatim>\<open>utils.py\<close>, which is not among the source files, and is a parameter
  (\<open>None\<close> when it raises).
\<close>

definition SQLAlchemyConnectionField_init ::
  "(string \<Rightarrow> pyval option) \<Rightarrow> graphene_type \<Rightarrow> kwargs \<Rightarrow> error + kwargs" where
  "SQLAlchemyConnectionField_init sort_argument_for_model type kw =
     (case (''sort'' \<in> set (od_keys kw), type) of
        (False, ConnectionSubclass tn None) \<Rightarrow> Inl (Exception (cannot_sort_message tn))
      | (False, ConnectionSubclass tn (Some model)) \<Rightarrow>
          (case sort_argument_for_model model of
             None \<Rightarrow> Inl (Exception (cannot_sort_message tn))
           | Some arg \<Rightarrow> Inr (od_set kw ''sort'' arg))
      | (False, OtherType _) \<Rightarrow> Inr kw
      | (True, _) \<Rightarrow> if od_get kw ''sort'' = Some PyNone then Inr (od_del kw ''sort'') else Inr kw)"

section \<open>Facts about dictionaries\<close>

lemma od_keys_od_set:
  "od_keys (od_set d k v) = (if k \<in> set (od_keys d) then od_keys d else od_keys d @ [k])"
  by (induction d) (force simp: od_keys_def)+

lemma od_get_od_set: "od_get (od_set d k v) k' = (if k' = k then Some v else od_get d k')"
  by (induction d) (auto simp: od_get_def)

lemma od_get_od_update:
  "od_get (od_update d items) k =
     (case map_of (rev items) k of None \<Rightarrow> od_get d k | Some v \<Rightarrow> Some v)"
proof (induction items arbitrary: d)
  case Nil
  then show ?case by simp
next
  case (Cons kv items)
  obtain k' v' where kv: "kv = (k', v')" by (cases kv)
  show ?case
    by (simp add: kv Cons.IH od_get_od_set map_add_def split: option.splits)
qed

lemma map_of_rev_distinct: "distinct (map fst xs) \<Longrightarrow> map_of (rev xs) = map_of xs"
  by (subst map_of_inject_set) (simp_all add: rev_map [symmetric])

lemma od_get_None_iff: "od_get d k = None \<longleftrightarrow> k \<notin> set (od_keys d)"
  by (simp add: od_get_def od_keys_def map_of_eq_None_iff)

lemma set_od_keys_od_update:
  "set (od_keys (od_update d items)) = set (od_keys d) \<union> fst ` set items"
  by (induction d items rule: od_update.induct) (auto simp: od_keys_od_set)

section \<open>The options an \<^verbatim>\<open>ORMField\<close> stores\<close>

text \<open>\<^bold>\<open>C9.\<close> Constructing an \<^verbatim>\<open>ORMField\<close> drops every one of the six common options
  whose value is \<^verbatim>\<open>None\<close>: the key is absent from \<^verbatim>\<open>kwargs\<close>, so no common option is
  ever stored (or handed on) with the value \<^verbatim>\<open>None\<close>. A common option with any other
  value, \<^verbatim>\<open>False\<close> included, is stored under its name, and every passthrough keyword
  option is stored whatever its value.\<close>

theorem ORMField_init_kwargs:
  assumes disj: "set (od_keys fk) \<inter> set common_names = {}"
    and dist: "distinct (od_keys fk)"
    and res: "ORMField_init model_attr type required description deprecation_reason batching
                 cc fk counter = (f, counter')"
  shows "(\<forall>(k, v) \<in> set [(''model_attr'', model_attr), (''type'', type),
                 (''required'', required), (''description'', description),
                 (''deprecation_reason'', deprecation_reason), (''batching'', batching)].
            (v = PyNone \<longrightarrow> k \<notin> set (od_keys (kwargs f)))
          \<and> (v \<noteq> PyNone \<longrightarrow> od_get (kwargs f) k = Some v))
       \<and> (\<forall>k \<in> set common_names. od_get (kwargs f) k \<noteq> Some PyNone)
       \<and> (\<forall>(k, v) \<in> set fk. od_get (kwargs f) k = Some v)"
proof -
  define opts where "opts = [(''model_attr'', model_attr), (''type'', type),
     (''required'', required), (''description'', description),
     (''deprecation_reason'', deprecation_reason), (''batching'', batching)]"
  let ?common = "filter (\<lambda>kv. snd kv \<noteq> PyNone) opts"
  have kw: "kwargs f = od_update fk ?common"
    using res by (auto simp: ORMField_init_def opts_def Let_def split: prod.splits)
  have dopts: "distinct (map fst opts)"
    by (simp add: opts_def)
  have names: "map fst opts = common_names"
    by (simp add: opts_def common_names_def)
  have dcommon: "distinct (map fst ?common)"
    using dopts by (simp add: distinct_map_filter)
  have get: "od_get (kwargs f) k =
      (case map_of ?common k of None \<Rightarrow> od_get fk k | Some v \<Rightarrow> Some v)" for k
    by (simp add: kw od_get_od_update map_of_rev_distinct [OF dcommon])
  have common: "map_of ?common k = (if v = PyNone then None else Some v)"
    if "(k, v) \<in> set opts" for k v
  proof (cases "v = PyNone")
    case True
    have "k \<notin> fst ` set ?common"
    proof
      assume "k \<in> fst ` set ?common"
      then obtain v' where "(k, v') \<in> set opts" "v' \<noteq> PyNone" by auto
      with that dopts have "v' = v" by (meson eq_key_imp_eq_value)
      with True \<open>v' \<noteq> PyNone\<close> show False by simp
    qed
    then show ?thesis
      using True by (simp add: map_of_eq_None_iff)
  next
    case False
    have "(k, v) \<in> set ?common"
      using that False by simp
    with dcommon show ?thesis
      using False by simp
  qed
  have fk_none: "od_get fk k = None" if "(k, v) \<in> set opts" for k v
  proof -
    have "fst (k, v) \<in> set (map fst opts)"
      using that by (simp only: set_map) (rule imageI)
    then have "k \<in> set common_names"
      by (simp add: names)
    then show ?thesis
      using disj by (auto simp: od_get_None_iff)
  qed
  have part1: "\<forall>(k, v) \<in> set opts.
           (v = PyNone \<longrightarrow> k \<notin> set (od_keys (kwargs f)))
         \<and> (v \<noteq> PyNone \<longrightarrow> od_get (kwargs f) k = Some v)"
  proof (clarify, intro conjI impI)
    fix k v assume kv: "(k, v) \<in> set opts"
    {
      assume "v = PyNone"
      then have "od_get (kwargs f) k = None"
        using common [OF kv] fk_none [OF kv] by (simp add: get)
      then show "k \<notin> set (od_keys (kwargs f))"
        by (simp add: od_get_None_iff)
    }
    {
      assume "v \<noteq> PyNone"
      then show "od_get (kwargs f) k = Some v"
        using common [OF kv] by (simp add: get)
    }
  qed
  have part2: "\<forall>k \<in> set common_names. od_get (kwargs f) k \<noteq> Some PyNone"
  proof
    fix k assume "k \<in> set common_names"
    then have "k \<in> fst ` set opts"
      by (simp add: names [symmetric])
    then obtain v where kv: "(k, v) \<in> set opts"
      by auto
    show "od_get (kwargs f) k \<noteq> Some PyNone"
      using common [OF kv] fk_none [OF kv] by (simp add: get)
  qed
  have part3: "\<forall>(k, v) \<in> set fk. od_get (kwargs f) k = Some v"
  proof clarify
    fix k v assume kv: "(k, v) \<in> set fk"
    then have "k \<in> set (od_keys fk)"
      by (force simp: od_keys_def)
    with disj have "k \<notin> set common_names" by auto
    then have "k \<notin> fst ` set opts"
      by (simp add: names [symmetric])
    then have "k \<notin> fst ` set ?common"
      by auto
    then have "map_of ?common k = None"
      by (simp add: map_of_eq_None_iff)
    moreover have "od_get fk k = Some v"
      using kv dist by (simp add: od_get_def od_keys_def)
    ultimately show "od_get (kwargs f) k = Some v"
      by (simp add: get)
  qed
  show ?thesis
    using part1 part2 part3 unfolding opts_def by blast
qed

theorem ORMField_init_kwargs_witness:
  "set (od_keys [(''name'', PyNone)]) \<inter> set common_names = {}
   \<and> distinct (od_keys [(''name'', PyNone)])
   \<and> (let f = fst (ORMField_init PyNone (PyObject ''Int'') (PyBool False) PyNone PyNone PyNone
                     None [(''name'', PyNone)] 7)
      in ''model_attr'' \<notin> set (od_keys (kwargs f))
       \<and> od_get (kwargs f) ''type'' = Some (PyObject ''Int'')
       \<and> od_get (kwargs f) ''required'' = Some (PyBool False)
       \<and> od_get (kwargs f) ''batching'' \<noteq> Some PyNone
       \<and> od_get (kwargs f) ''name'' = Some PyNone)"
proof -
  have h1: "set (od_keys [(''name'', PyNone)]) \<inter> set common_names = {}"
    by (simp add: od_keys_def common_names_def)
  have h2: "distinct (od_keys [(''name'', PyNone)])"
    by (simp add: od_keys_def)
  obtain f c where res: "ORMField_init PyNone (PyObject ''Int'') (PyBool False) PyNone PyNone
      PyNone None [(''name'', PyNone)] 7 = (f, c)"
    by (cases "ORMField_init PyNone (PyObject ''Int'') (PyBool False) PyNone PyNone
      PyNone None [(''name'', PyNone)] 7")
  show ?thesis
    using h1 h2 ORMField_init_kwargs [OF h1 h2 res] by (simp add: res common_names_def)
qed

section \<open>The order of the classified attributes\<close>

lemma first_occurrences_distinct: "distinct xs \<Longrightarrow> first_occurrences xs = xs"
proof (induction xs)
  case Nil
  then show ?case by simp
next
  case (Cons x xs)
  then have "filter (\<lambda>y. y \<noteq> x) xs = xs"
    by (auto simp: filter_id_conv)
  with Cons show ?case by simp
qed

lemma od_keys_od_update:
  "od_keys (od_update d items) =
     od_keys d @ first_occurrences (filter (\<lambda>k. k \<notin> set (od_keys d)) (map fst items))"
proof (induction d items rule: od_update.induct)
  case (1 d)
  then show ?case by simp
next
  case (2 d k v items)
  show ?case
  proof (cases "k \<in> set (od_keys d)")
    case True
    then show ?thesis
      by (simp add: "2.IH" od_keys_od_set)
  next
    case False
    then show ?thesis
      by (simp add: "2.IH" od_keys_od_set conj_commute)
  qed
qed

lemma od_keys_OrderedDict: "od_keys (OrderedDict items) = first_occurrences (map fst items)"
  by (simp add: OrderedDict_def od_keys_od_update) (simp add: od_keys_def)

lemma od_keys_OrderedDict_distinct:
  "distinct (map fst items) \<Longrightarrow> od_keys (OrderedDict items) = map fst items"
  by (simp add: od_keys_OrderedDict first_occurrences_distinct)

lemma od_get_OrderedDict: "od_get (OrderedDict items) k = map_of (rev items) k"
  by (simp add: OrderedDict_def od_get_od_update split: option.splits) (simp add: od_get_def)

lemma od_get_OrderedDict_distinct:
  "distinct (map fst items) \<Longrightarrow> od_get (OrderedDict items) k = map_of items k"
  by (simp add: od_get_OrderedDict map_of_rev_distinct)

lemma distinct_od_keys_od_set: "distinct (od_keys d) \<Longrightarrow> distinct (od_keys (od_set d k v))"
  by (simp add: od_keys_od_set)

lemma distinct_od_keys_od_update:
  "distinct (od_keys d) \<Longrightarrow> distinct (od_keys (od_update d items))"
  by (induction d items rule: od_update.induct) (simp_all add: distinct_od_keys_od_set)

lemma distinct_od_keys_OrderedDict: "distinct (od_keys (OrderedDict items))"
  unfolding OrderedDict_def by (rule distinct_od_keys_od_update) (simp add: od_keys_def)

text \<open>\<^bold>\<open>C7.\<close> The attribute classifier's mapping lists the plain column attributes, then
  the composite column attributes, then the hybrid attributes, then the relationship
  attributes, each group in the order the metadata provider reports it. The provider
  reports every attribute name once (the groups partition the mapper's attributes), which
  is the hypothesis.\<close>

theorem all_model_attrs_order:
  assumes "distinct (map fst (column_attrs m @ composites m @ hybrid_items m @ relationships m))"
  shows "od_keys (all_model_attrs m) =
           map fst (column_attrs m) @ map fst (composites m)
           @ map fst (filter (\<lambda>item. is_hybrid_property (snd item)) (all_orm_descriptors m))
           @ map fst (relationships m)"
  using od_keys_OrderedDict_distinct [OF assms]
  by (simp add: all_model_attrs_def hybrid_items_def)

theorem all_model_attrs_order_witness:
  "distinct (map fst
      (column_attrs \<lparr>column_attrs = [(''id'', ColumnProperty ''id''), (''name'', ColumnProperty ''name'')],
          composites = [(''point'', CompositeProperty ''point'')],
          all_orm_descriptors = [(''id'', ColumnProperty ''id''), (''full'', hybrid_property ''full''),
            (''proxy'', OtherDescriptor ''proxy'')],
          relationships = [(''pets'', RelationshipProperty ''pets'')]\<rparr>
       @ [(''point'', CompositeProperty ''point''), (''full'', hybrid_property ''full''),
          (''pets'', RelationshipProperty ''pets'')]))
   \<and> od_keys (all_model_attrs
        \<lparr>column_attrs = [(''id'', ColumnProperty ''id''), (''name'', ColumnProperty ''name'')],
          composites = [(''point'', CompositeProperty ''point'')],
          all_orm_descriptors = [(''id'', ColumnProperty ''id''), (''full'', hybrid_property ''full''),
            (''proxy'', OtherDescriptor ''proxy'')],
          relationships = [(''pets'', RelationshipProperty ''pets'')]\<rparr>)
     = [''id'', ''name'', ''point'', ''full'', ''pets'']"
  using all_model_attrs_order [of
      "\<lparr>column_attrs = [(''id'', ColumnProperty ''id''), (''name'', ColumnProperty ''name'')],
          composites = [(''point'', CompositeProperty ''point'')],
          all_orm_descriptors = [(''id'', ColumnProperty ''id''), (''full'', hybrid_property ''full''),
            (''proxy'', OtherDescriptor ''proxy'')],
          relationships = [(''pets'', RelationshipProperty ''pets'')]\<rparr>"]
  by (simp add: hybrid_items_def)

section \<open>The declared field set of the type constructor\<close>

lemma od_get_od_update_distinct:
  "distinct (od_keys items) \<Longrightarrow>
     od_get (od_update d items) k = (if k \<in> set (od_keys items) then od_get items k else od_get d k)"
proof -
  assume "distinct (od_keys items)"
  then have "map_of (rev items) = map_of items"
    by (simp add: od_keys_def map_of_rev_distinct)
  then have "od_get (od_update d items) k =
      (case map_of items k of None \<Rightarrow> od_get d k | Some v \<Rightarrow> Some v)"
    by (simp add: od_get_od_update)
  then show ?thesis
    by (auto simp: od_keys_def od_get_def map_of_eq_None_iff split: option.splits
        dest: map_of_SomeD intro: rev_image_eqI)
qed

text \<open>\<^bold>\<open>C3\<close> (as amended). When \<^verbatim>\<open>_meta\<close> already carries a non-empty declared field set
  and a generated field has the name of a declared one, the generated field takes the
  name: \<^verbatim>\<open>_meta.fields.update(sqla_fields)\<close> overwrites the declared value and keeps
  the key's position. Declared fields under other names are kept, and the generated
  names that were not declared follow them in generation order.\<close>

theorem meta_fields_generated_wins:
  assumes "meta_arg = Some meta" and "opt_fields meta = Some declared" and "declared \<noteq> []"
    and "distinct (od_keys sqla_fields)"
  shows "\<exists>fs. opt_fields (init_subclass_meta meta_arg model reg sqla_fields connection ident) = Some fs
     \<and> (\<forall>n. od_get fs n =
            (if n \<in> set (od_keys sqla_fields) then od_get sqla_fields n else od_get declared n))
     \<and> od_keys fs
          = od_keys declared @ filter (\<lambda>n. n \<notin> set (od_keys declared)) (od_keys sqla_fields)"
proof -
  have "opt_fields (init_subclass_meta meta_arg model reg sqla_fields connection ident)
      = Some (od_update declared sqla_fields)"
    using assms(1-3) by (simp add: init_subclass_meta_def)
  moreover have "od_keys (od_update declared sqla_fields)
      = od_keys declared @ filter (\<lambda>n. n \<notin> set (od_keys declared)) (od_keys sqla_fields)"
    using assms(4)
    by (simp add: od_keys_od_update first_occurrences_distinct od_keys_def [of sqla_fields])
  ultimately show ?thesis
    using assms(4) by (simp add: od_get_od_update_distinct)
qed

text \<open>The amended statement at a declared set with the fields \<open>extra\<close> and \<open>name\<close> and
  generated fields \<open>id\<close> and \<open>name\<close>.\<close>

theorem meta_fields_generated_wins_witness:
  "\<exists>fs. opt_fields (init_subclass_meta
      (Some (SQLAlchemyObjectTypeOptions\<lparr>opt_fields := Some [(''extra'', ''declared extra''), (''name'', ''declared name'')]\<rparr>))
      (PyObject ''Model'') (PyObject ''registry'') [(''id'', ''generated id''), (''name'', ''generated name'')] PyNone PyNone)
     = Some fs
   \<and> od_get fs ''name'' = Some ''generated name''
   \<and> od_get fs ''extra'' = Some ''declared extra''
   \<and> od_keys fs = [''extra'', ''name'', ''id'']"
proof -
  let ?meta = "SQLAlchemyObjectTypeOptions\<lparr>opt_fields := Some [(''extra'', ''declared extra''), (''name'', ''declared name'')]\<rparr>"
  have h2: "opt_fields ?meta = Some [(''extra'', ''declared extra''), (''name'', ''declared name'')]"
    by simp
  have h3: "[(''extra'', ''declared extra''), (''name'', ''declared name'')] \<noteq> []" by simp
  have h4: "distinct (od_keys [(''id'', ''generated id''), (''name'', ''generated name'')])"
    by (simp add: od_keys_def)
  from meta_fields_generated_wins [OF refl h2 h3 h4, of "PyObject ''Model''" "PyObject ''registry''" PyNone PyNone]
  obtain fs where fs: "opt_fields (init_subclass_meta (Some ?meta)
      (PyObject ''Model'') (PyObject ''registry'') [(''id'', ''generated id''), (''name'', ''generated name'')] PyNone PyNone) = Some fs"
    and get: "\<And>n. od_get fs n =
            (if n \<in> set (od_keys [(''id'', ''generated id''), (''name'', ''generated name'')]) then od_get [(''id'', ''generated id''), (''name'', ''generated name'')] n else od_get [(''extra'', ''declared extra''), (''name'', ''declared name'')] n)"
    and keys: "od_keys fs = od_keys [(''extra'', ''declared extra''), (''name'', ''declared name'')] @ filter (\<lambda>n. n \<notin> set (od_keys [(''extra'', ''declared extra''), (''name'', ''declared name'')])) (od_keys [(''id'', ''generated id''), (''name'', ''generated name'')])"
    by blast
  show ?thesis
    using fs get [of "''name''"] get [of "''extra''"] keys
    by (simp add: od_keys_def od_get_def)
qed

text \<open>\<^bold>\<open>C3\<close> as stated fails: with the declared field set \<open>{name: declared}\<close> and the
  generated field set \<open>{name: generated}\<close>, \<^verbatim>\<open>_meta.fields\<close> maps \<open>name\<close> to the
  generated field.\<close>

theorem meta_fields_collision_counterexample:
  "opt_fields (init_subclass_meta
      (Some (SQLAlchemyObjectTypeOptions\<lparr>opt_fields := Some [(''name'', ''declared'')]\<rparr>))
      (PyObject ''Model'') (PyObject ''registry'') [(''name'', ''generated'')] PyNone PyNone)
     = Some [(''name'', ''generated'')]
   \<and> od_get [(''name'', ''generated'')] ''name'' \<noteq> Some ''declared''"
  by (simp add: init_subclass_meta_def SQLAlchemyObjectTypeOptions_def od_get_def)

section \<open>Sorting and resolving a connection\<close>

lemma values_of_EnumValue:
  "values_of (map (\<lambda>c. EnumValue (fst c) (snd c)) cols) = Inr (map snd cols)"
  by (induction cols) simp_all

text \<open>\<^bold>\<open>C5.\<close> The default query of the connection field: with \<^verbatim>\<open>sort=None\<close> the query
  is the one the query collaborator returned, with no \<^verbatim>\<open>order_by\<close> applied; with a
  single sort value, \<^verbatim>\<open>order_by\<close> is applied once with that value's clause; with a list
  of sort values, \<^verbatim>\<open>order_by\<close> is applied once with the values' clauses in the order of
  the list.\<close>

theorem get_query_sort:
  "get_query model context SortNone = Inr (utils_get_query model context)
   \<and> q_order_by (utils_get_query model context) = []
   \<and> get_query model context (SortStr (EnumValue name clause))
       = Inr (order_by (utils_get_query model context) [clause])
   \<and> q_order_by (order_by (utils_get_query model context) [clause]) = [[clause]]
   \<and> get_query model context (SortList (map (\<lambda>c. EnumValue (fst c) (snd c)) cols))
       = Inr (order_by (utils_get_query model context) (map snd cols))
   \<and> q_order_by (order_by (utils_get_query model context) (map snd cols)) = [map snd cols]"
  by (simp add: get_query_def values_of_EnumValue utils_get_query_def order_by_def)

text \<open>\<^bold>\<open>C6.\<close> \<^verbatim>\<open>resolve_connection\<close> attaches, as \<^verbatim>\<open>length\<close>, the result of
  \<^verbatim>\<open>count()\<close> when the resolved value is a query and the length of the list otherwise,
  and, as \<^verbatim>\<open>iterable\<close>, the resolved value itself, which is also what is handed to the
  slicing function. When the resolver returned \<^verbatim>\<open>None\<close> the resolved value is the
  default query.\<close>

theorem resolve_connection_length_iterable:
  "resolve_connection count cfls ct model context args (ResolvedQuery q)
     = Inr \<lparr>sliced = cfls (ResolvedQuery q) args 0 (count q) (count q) ct,
            iterable = ResolvedQuery q, length_attr = count q\<rparr>
   \<and> resolve_connection count cfls ct model context args (ResolvedList xs)
     = Inr \<lparr>sliced = cfls (ResolvedList xs) args 0 (length xs) (length xs) ct,
            iterable = ResolvedList xs, length_attr = length xs\<rparr>
   \<and> resolve_connection count cfls ct model context args ResolvedNone
     = (case get_query model context (fst args) of
          Inl e \<Rightarrow> Inl e
        | Inr q' \<Rightarrow> Inr \<lparr>sliced = cfls (ResolvedQuery q') args 0 (count q') (count q') ct,
                         iterable = ResolvedQuery q', length_attr = count q'\<rparr>)"
  by (simp add: resolve_connection_def split: sum.splits)

section \<open>\<^verbatim>\<open>is_type_of\<close>\<close>

text \<open>\<^bold>\<open>C8\<close> (as amended). \<^verbatim>\<open>is_type_of\<close> returns true when \<open>root\<close> is an instance of
  the generated type; otherwise it raises when \<open>root\<close> is not a mapped instance; otherwise
  it returns whether \<open>root\<close> is an instance of the bound model in the sense of
  \<^verbatim>\<open>isinstance\<close>: of the bound model's class or of a class derived from it. It never
  returns false for an object that is not mapped and never raises for a mapped one.\<close>

theorem is_type_of_cases:
  "(isinstance root cls \<longrightarrow> is_type_of is_mapped_instance cls model root = Inr True)
   \<and> (\<not> isinstance root cls \<and> \<not> is_mapped_instance root \<longrightarrow>
        is_type_of is_mapped_instance cls model root = Inl (Exception (incompatible_message root)))
   \<and> (\<not> isinstance root cls \<and> is_mapped_instance root \<longrightarrow>
        is_type_of is_mapped_instance cls model root = Inr (isinstance root model))
   \<and> (\<not> is_mapped_instance root \<longrightarrow> is_type_of is_mapped_instance cls model root \<noteq> Inr False)
   \<and> (is_mapped_instance root \<longrightarrow> (\<exists>b. is_type_of is_mapped_instance cls model root = Inr b))"
  by (auto simp: is_type_of_def)

text \<open>The four outcomes: an instance of the generated type, an unmapped object, an
  instance of the bound model, and an instance of an unrelated model.\<close>

theorem is_type_of_cases_witness:
  "is_type_of (\<lambda>root. obj_class root \<noteq> ''dict'') ''PersonType'' ''Person''
      \<lparr>obj_class = ''PersonType'', obj_bases = [''object''], obj_repr = ''<PersonType>''\<rparr> = Inr True
   \<and> is_type_of (\<lambda>root. obj_class root \<noteq> ''dict'') ''PersonType'' ''Person''
      \<lparr>obj_class = ''dict'', obj_bases = [''object''], obj_repr = ''{}''\<rparr>
        = Inl (Exception ''Received incompatible instance \"{}\".'')
   \<and> is_type_of (\<lambda>root. obj_class root \<noteq> ''dict'') ''PersonType'' ''Person''
      \<lparr>obj_class = ''Person'', obj_bases = [''Base'', ''object''], obj_repr = ''<Person 1>''\<rparr> = Inr True
   \<and> is_type_of (\<lambda>root. obj_class root \<noteq> ''dict'') ''PersonType'' ''Person''
      \<lparr>obj_class = ''Pet'', obj_bases = [''Base'', ''object''], obj_repr = ''<Pet 1>''\<rparr> = Inr False"
  using is_type_of_cases [of "\<lparr>obj_class = ''PersonType'', obj_bases = [''object''], obj_repr = ''<PersonType>''\<rparr>"
        "''PersonType''" "\<lambda>root. obj_class root \<noteq> ''dict''" "''Person''"]
    is_type_of_cases [of "\<lparr>obj_class = ''dict'', obj_bases = [''object''], obj_repr = ''{}''\<rparr>"
        "''PersonType''" "\<lambda>root. obj_class root \<noteq> ''dict''" "''Person''"]
    is_type_of_cases [of "\<lparr>obj_class = ''Person'', obj_bases = [''Base'', ''object''], obj_repr = ''<Person 1>''\<rparr>"
        "''PersonType''" "\<lambda>root. obj_class root \<noteq> ''dict''" "''Person''"]
    is_type_of_cases [of "\<lparr>obj_class = ''Pet'', obj_bases = [''Base'', ''object''], obj_repr = ''<Pet 1>''\<rparr>"
        "''PersonType''" "\<lambda>root. obj_class root \<noteq> ''dict''" "''Person''"]
  by (simp add: isinstance_def incompatible_message_def)

text \<open>\<^bold>\<open>C8\<close> as stated fails: an instance of \<open>Employee\<close>, a mapped model derived from the
  bound model \<open>Person\<close>, is an instance of another model than the bound one, and
  \<^verbatim>\<open>is_type_of\<close> returns true for it.\<close>

theorem is_type_of_subclass_counterexample:
  "is_type_of (\<lambda>root. True) ''PersonType'' ''Person''
      \<lparr>obj_class = ''Employee'', obj_bases = [''Person'', ''Base'', ''object''],
       obj_repr = ''<Employee 1>''\<rparr> = Inr True
   \<and> obj_class \<lparr>obj_class = ''Employee'', obj_bases = [''Person'', ''Base'', ''object''],
       obj_repr = ''<Employee 1>''\<rparr> \<noteq> ''Person''"
  by (simp add: is_type_of_def isinstance_def)

section \<open>The sort argument of \<^verbatim>\<open>SQLAlchemyConnectionField\<close>\<close>

lemma od_keys_od_del: "od_keys (od_del d k) = filter (\<lambda>k'. k' \<noteq> k) (od_keys d)"
  by (simp add: od_del_def od_keys_def filter_map comp_def)

lemma od_set_fresh: "k \<notin> set (od_keys d) \<Longrightarrow> od_set d k v = d @ [(k, v)]"
  by (induction d) (auto simp: od_keys_def)

text \<open>\<^bold>\<open>C10.\<close> Passing \<^verbatim>\<open>sort=None\<close> removes the keyword, so the base class receives no
  \<^verbatim>\<open>sort\<close> argument. Omitting \<^verbatim>\<open>sort\<close> on a connection type adds the sort argument
  generated for the connection's model, and raises the error that tells the caller to
  set \<^verbatim>\<open>sort\<close> to \<^verbatim>\<open>None\<close> when no model (or no sort argument) can be derived.\<close>

theorem connection_field_sort:
  "(od_get kw ''sort'' = Some PyNone \<longrightarrow>
      SQLAlchemyConnectionField_init safm type kw = Inr (od_del kw ''sort'')
      \<and> ''sort'' \<notin> set (od_keys (od_del kw ''sort'')))
   \<and> (''sort'' \<notin> set (od_keys kw) \<longrightarrow>
      SQLAlchemyConnectionField_init safm (ConnectionSubclass tn (Some model)) kw
        = (case safm model of
             Some arg \<Rightarrow> Inr (kw @ [(''sort'', arg)])
           | None \<Rightarrow> Inl (Exception (cannot_sort_message tn)))
      \<and> SQLAlchemyConnectionField_init safm (ConnectionSubclass tn None) kw
        = Inl (Exception (cannot_sort_message tn)))
   \<and> (\<exists>rest. cannot_sort_message tn
        = ''Cannot create sort argument for '' @ tn @ ''. A model is required. ''
          @ ''Set the \"sort\" argument to None'' @ rest)"
proof (intro conjI impI)
  assume a: "od_get kw ''sort'' = Some PyNone"
  then have "''sort'' \<in> set (od_keys kw)"
    using od_get_None_iff [of kw "''sort''"] by auto
  then show "SQLAlchemyConnectionField_init safm type kw = Inr (od_del kw ''sort'')"
    using a by (simp add: SQLAlchemyConnectionField_init_def)
  show "''sort'' \<notin> set (od_keys (od_del kw ''sort''))"
    by (simp add: od_keys_od_del)
next
  assume a: "''sort'' \<notin> set (od_keys kw)"
  then show "SQLAlchemyConnectionField_init safm (ConnectionSubclass tn (Some model)) kw
        = (case safm model of
             Some arg \<Rightarrow> Inr (kw @ [(''sort'', arg)])
           | None \<Rightarrow> Inl (Exception (cannot_sort_message tn)))"
    by (simp add: SQLAlchemyConnectionField_init_def od_set_fresh split: option.splits)
  from a show "SQLAlchemyConnectionField_init safm (ConnectionSubclass tn None) kw
        = Inl (Exception (cannot_sort_message tn))"
    by (simp add: SQLAlchemyConnectionField_init_def)
next
  show "\<exists>rest. cannot_sort_message tn
        = ''Cannot create sort argument for '' @ tn @ ''. A model is required. ''
          @ ''Set the \"sort\" argument to None'' @ rest"
    by (simp add: cannot_sort_message_def)
qed

text \<open>The three cases on a connection of the model \<open>Pet\<close> and on a connection without a
  model.\<close>

theorem connection_field_sort_witness:
  "SQLAlchemyConnectionField_init (\<lambda>m. if m = ''Pet'' then Some (PyObject ''PetSortArgument'') else None)
       (ConnectionSubclass ''PetConnection'' (Some ''Pet'')) [(''sort'', PyNone), (''description'', PyStr ''pets'')]
     = Inr [(''description'', PyStr ''pets'')]
   \<and> SQLAlchemyConnectionField_init (\<lambda>m. if m = ''Pet'' then Some (PyObject ''PetSortArgument'') else None)
       (ConnectionSubclass ''PetConnection'' (Some ''Pet'')) [(''description'', PyStr ''pets'')]
     = Inr [(''description'', PyStr ''pets''), (''sort'', PyObject ''PetSortArgument'')]
   \<and> SQLAlchemyConnectionField_init (\<lambda>m. if m = ''Pet'' then Some (PyObject ''PetSortArgument'') else None)
       (ConnectionSubclass ''PlainConnection'' None) [(''description'', PyStr ''pets'')]
     = Inl (Exception (cannot_sort_message ''PlainConnection''))"
  using connection_field_sort [of "[(''sort'', PyNone), (''description'', PyStr ''pets'')]"
      "\<lambda>m. if m = ''Pet'' then Some (PyObject ''PetSortArgument'') else None"
      "ConnectionSubclass ''PetConnection'' (Some ''Pet'')" "''PetConnection''" "''Pet''"]
    connection_field_sort [of "[(''description'', PyStr ''pets'')]"
      "\<lambda>m. if m = ''Pet'' then Some (PyObject ''PetSortArgument'') else None"
      "ConnectionSubclass ''PetConnection'' (Some ''Pet'')" "''PetConnection''" "''Pet''"]
    connection_field_sort [of "[(''description'', PyStr ''pets'')]"
      "\<lambda>m. if m = ''Pet'' then Some (PyObject ''PetSortArgument'') else None"
      "ConnectionSubclass ''PetConnection'' (Some ''Pet'')" "''PlainConnection''" "''Pet''"]
  by (simp add: od_get_def od_keys_def od_del_def)

section \<open>Field construction\<close>

lemma od_del_od_set: "od_del (od_set d k v) k = od_del d k"
  by (induction d) (auto simp: od_del_def)

lemma od_del_absent: "k \<notin> set (od_keys d) \<Longrightarrow> od_del d k = d"
  by (induction d) (auto simp: od_del_def od_keys_def)

lemma od_set_same: "od_get d k = Some v \<Longrightarrow> od_set d k v = d"
  by (induction d) (auto simp: od_get_def)

lemma od_get_od_del: "od_get (od_del d k) k' = (if k' = k then None else od_get d k')"
  by (induction d) (auto simp: od_del_def od_get_def)

lemma od_pop_od_set: "od_pop (od_set d k v) k = Some (v, od_del d k)"
  by (simp add: od_pop_def od_get_od_set od_del_od_set)

lemma od_get_Some_keys: "od_get d k = Some v \<Longrightarrow> k \<in> set (od_keys d)"
  using od_get_None_iff [of d k] by auto

subsection \<open>The pass that sets \<^verbatim>\<open>model_attr\<close>\<close>

lemma set_model_attrs_frame:
  "set_model_attrs attrs tn items h = Inr h1 \<Longrightarrow> r \<notin> snd ` set items \<Longrightarrow> h1 r = h r"
proof (induction items arbitrary: h)
  case Nil
  then show ?case by simp
next
  case (Cons item items)
  obtain n r' where item: "item = (n, r')" by (cases item)
  from Cons.prems show ?case
    by (auto simp: item Let_def split: if_splits dest!: Cons.IH)
qed

lemma set_model_attrs_counter:
  "set_model_attrs attrs tn items h = Inr h1 \<Longrightarrow> creation_counter (h1 r) = creation_counter (h r)"
proof (induction items arbitrary: h)
  case Nil
  then show ?case by simp
next
  case (Cons item items)
  obtain n r' where item: "item = (n, r')" by (cases item)
  from Cons.prems show ?case
    by (auto simp: item Let_def split: if_splits dest!: Cons.IH)
qed

lemma set_model_attrs_result:
  "set_model_attrs attrs tn items h = Inr h1 \<Longrightarrow> distinct (map snd items) \<Longrightarrow>
     (n, r) \<in> set items \<Longrightarrow>
     in_attrs (resolved_attr_name (kwargs (h r)) n) attrs
     \<and> h1 r = (h r)\<lparr>kwargs := od_set (kwargs (h r)) ''model_attr''
                               (resolved_attr_name (kwargs (h r)) n)\<rparr>"
proof (induction items arbitrary: h)
  case Nil
  then show ?case by simp
next
  case (Cons item items)
  obtain n' r' where item: "item = (n', r')" by (cases item)
  let ?h = "h(r' := (h r')\<lparr>kwargs := od_set (kwargs (h r')) ''model_attr''
                               (resolved_attr_name (kwargs (h r')) n')\<rparr>)"
  from Cons.prems(1) have ok: "in_attrs (resolved_attr_name (kwargs (h r')) n') attrs"
    and rest: "set_model_attrs attrs tn items ?h = Inr h1"
    by (auto simp: item Let_def split: if_splits)
  from Cons.prems(2) have d: "distinct (map snd items)" and fresh: "r' \<notin> snd ` set items"
    by (auto simp: item)
  show ?case
  proof (cases "(n, r) = (n', r')")
    case True
    then have "h1 r = ?h r"
      using set_model_attrs_frame [OF rest fresh] by simp
    with True ok show ?thesis by simp
  next
    case False
    then have mem: "(n, r) \<in> set items"
      using Cons.prems(3) by (auto simp: item)
    then have "r \<noteq> r'"
      using fresh by force
    then show ?thesis
      using Cons.IH [OF rest d mem] by simp
  qed
qed

subsection \<open>The pass that builds the fields\<close>

lemma build_fields_Cons_Inr:
  assumes "build_fields cc t attrs b fac ((n, e) # es) s fds = Inr (flds, s')"
  obtains attr f kw' where
    "build_field t attrs b fac n (entry_kwargs (heap s) e) = Inr (attr, f, kw')"
    "build_fields cc t attrs b fac es
       (s\<lparr>heap := (case e of
                     Declared r \<Rightarrow> (heap s)(r := (heap s r)\<lparr>kwargs := kw'\<rparr>)
                   | Created _ \<Rightarrow> heap s),
          registry := register_orm_field (registry s) (type_name t) n attr,
          global_counter := cc f (global_counter s)\<rparr>)
       (od_set fds n f) = Inr (flds, s')"
  using assms
  by (cases e) (auto simp: entry_kwargs_def Let_def split: sum.splits prod.splits)

lemma build_fields_frame:
  "build_fields cc t attrs b fac es s fds = Inr (flds, s') \<Longrightarrow>
     r \<notin> set (declared_refs es) \<Longrightarrow> heap s' r = heap s r"
proof (induction es arbitrary: s fds)
  case Nil
  then show ?case by simp
next
  case (Cons ne es)
  obtain n e where ne: "ne = (n, e)" by (cases ne)
  from Cons.prems(1) obtain attr f kw' where
    rest: "build_fields cc t attrs b fac es
       (s\<lparr>heap := (case e of
                     Declared r \<Rightarrow> (heap s)(r := (heap s r)\<lparr>kwargs := kw'\<rparr>)
                   | Created _ \<Rightarrow> heap s),
          registry := register_orm_field (registry s) (type_name t) n attr,
          global_counter := cc f (global_counter s)\<rparr>)
       (od_set fds n f) = Inr (flds, s')"
    unfolding ne by (rule build_fields_Cons_Inr)
  from Cons.prems(2) have "r \<notin> set (declared_refs es)"
    by (cases e) (simp_all add: ne)
  from Cons.IH [OF rest this] Cons.prems(2) show ?case
    by (cases e) (simp_all add: ne)
qed

lemma build_fields_keys:
  "build_fields cc t attrs b fac es s fds = Inr (flds, s') \<Longrightarrow>
     od_keys flds = od_keys fds
       @ first_occurrences (filter (\<lambda>n. n \<notin> set (od_keys fds)) (map fst es))"
proof (induction es arbitrary: s fds)
  case Nil
  then show ?case by simp
next
  case (Cons ne es)
  obtain n e where ne: "ne = (n, e)" by (cases ne)
  from Cons.prems(1) obtain attr f kw' where
    rest: "build_fields cc t attrs b fac es
       (s\<lparr>heap := (case e of
                     Declared r \<Rightarrow> (heap s)(r := (heap s r)\<lparr>kwargs := kw'\<rparr>)
                   | Created _ \<Rightarrow> heap s),
          registry := register_orm_field (registry s) (type_name t) n attr,
          global_counter := cc f (global_counter s)\<rparr>)
       (od_set fds n f) = Inr (flds, s')"
    unfolding ne by (rule build_fields_Cons_Inr)
  show ?case
  proof (cases "n \<in> set (od_keys fds)")
    case True
    then show ?thesis
      using Cons.IH [OF rest] by (simp add: ne od_keys_od_set)
  next
    case False
    then show ?thesis
      using Cons.IH [OF rest] by (simp add: ne od_keys_od_set conj_commute)
  qed
qed

lemma build_fields_other_field:
  "build_fields cc t attrs b fac es s fds = Inr (flds, s') \<Longrightarrow>
     n \<notin> fst ` set es \<Longrightarrow> od_get flds n = od_get fds n"
proof (induction es arbitrary: s fds)
  case Nil
  then show ?case by simp
next
  case (Cons ne es)
  obtain n' e where ne: "ne = (n', e)" by (cases ne)
  from Cons.prems(1) obtain attr f kw' where
    rest: "build_fields cc t attrs b fac es
       (s\<lparr>heap := (case e of
                     Declared r \<Rightarrow> (heap s)(r := (heap s r)\<lparr>kwargs := kw'\<rparr>)
                   | Created _ \<Rightarrow> heap s),
          registry := register_orm_field (registry s) (type_name t) n' attr,
          global_counter := cc f (global_counter s)\<rparr>)
       (od_set fds n' f) = Inr (flds, s')"
    unfolding ne by (rule build_fields_Cons_Inr)
  from Cons.prems(2) have "n \<notin> fst ` set es" "n \<noteq> n'"
    by (auto simp: ne)
  with Cons.IH [OF rest] show ?case
    by (simp add: od_get_od_set)
qed

lemma build_fields_other_registry:
  "build_fields cc t attrs b fac es s fds = Inr (flds, s') \<Longrightarrow>
     n \<notin> fst ` set es \<Longrightarrow>
     od_get (registry s') (type_name t, n) = od_get (registry s) (type_name t, n)"
proof (induction es arbitrary: s fds)
  case Nil
  then show ?case by simp
next
  case (Cons ne es)
  obtain n' e where ne: "ne = (n', e)" by (cases ne)
  from Cons.prems(1) obtain attr f kw' where
    rest: "build_fields cc t attrs b fac es
       (s\<lparr>heap := (case e of
                     Declared r \<Rightarrow> (heap s)(r := (heap s r)\<lparr>kwargs := kw'\<rparr>)
                   | Created _ \<Rightarrow> heap s),
          registry := register_orm_field (registry s) (type_name t) n' attr,
          global_counter := cc f (global_counter s)\<rparr>)
       (od_set fds n' f) = Inr (flds, s')"
    unfolding ne by (rule build_fields_Cons_Inr)
  from Cons.prems(2) have "n \<notin> fst ` set es" "n \<noteq> n'"
    by (auto simp: ne)
  with Cons.IH [OF rest] show ?case
    by (simp add: od_get_od_set register_orm_field_def)
qed

lemma entry_kwargs_frame:
  "(\<And>r. e = Declared r \<Longrightarrow> h' r = h r) \<Longrightarrow> entry_kwargs h' e = entry_kwargs h e"
  by (cases e) (simp_all add: entry_kwargs_def)

lemma declared_refs_mem: "(n, Declared r) \<in> set es \<Longrightarrow> r \<in> set (declared_refs es)"
  by (induction es rule: declared_refs.induct) auto

lemma build_fields_entry:
  "build_fields cc t attrs b fac es s fds = Inr (flds, s') \<Longrightarrow>
     distinct (map fst es) \<Longrightarrow> distinct (declared_refs es) \<Longrightarrow> (n, e) \<in> set es \<Longrightarrow>
     \<exists>attr f kw'.
        build_field t attrs b fac n (entry_kwargs (heap s) e) = Inr (attr, f, kw')
      \<and> od_get flds n = Some f
      \<and> od_get (registry s') (type_name t, n) = Some attr
      \<and> (\<forall>r. e = Declared r \<longrightarrow> heap s' r = (heap s r)\<lparr>kwargs := kw'\<rparr>)"
proof (induction es arbitrary: s fds)
  case Nil
  then show ?case by simp
next
  case (Cons ne es)
  obtain n' e' where ne: "ne = (n', e')" by (cases ne)
  let ?s = "\<lambda>attr f kw'. s\<lparr>heap := (case e' of
                     Declared r \<Rightarrow> (heap s)(r := (heap s r)\<lparr>kwargs := kw'\<rparr>)
                   | Created _ \<Rightarrow> heap s),
          registry := register_orm_field (registry s) (type_name t) n' attr,
          global_counter := cc f (global_counter s)\<rparr>"
  from Cons.prems(1) obtain attr f kw' where
    first: "build_field t attrs b fac n' (entry_kwargs (heap s) e') = Inr (attr, f, kw')" and
    rest: "build_fields cc t attrs b fac es (?s attr f kw') (od_set fds n' f) = Inr (flds, s')"
    unfolding ne by (rule build_fields_Cons_Inr)
  from Cons.prems(2) have dn: "distinct (map fst es)" and fresh: "n' \<notin> fst ` set es"
    by (auto simp: ne)
  from Cons.prems(3) have dr: "distinct (declared_refs es)"
    and freshr: "\<And>r. e' = Declared r \<Longrightarrow> r \<notin> set (declared_refs es)"
    by (cases e'; simp add: ne)+
  show ?case
  proof (cases "(n, e) = (n', e')")
    case True
    have "od_get flds n' = Some f"
      using build_fields_other_field [OF rest fresh] by (simp add: od_get_od_set)
    moreover have "od_get (registry s') (type_name t, n') = Some attr"
      using build_fields_other_registry [OF rest fresh]
      by (simp add: od_get_od_set register_orm_field_def)
    moreover have "heap s' r = (heap s r)\<lparr>kwargs := kw'\<rparr>" if "e' = Declared r" for r
      using build_fields_frame [OF rest freshr [OF that]] that by simp
    ultimately show ?thesis
      using True first by auto
  next
    case False
    then have mem: "(n, e) \<in> set es"
      using Cons.prems(4) by (auto simp: ne)
    have same: "entry_kwargs (heap (?s attr f kw')) e = entry_kwargs (heap s) e"
    proof (rule entry_kwargs_frame)
      fix r assume e: "e = Declared r"
      then have "r \<in> set (declared_refs es)"
        using mem by (auto intro: declared_refs_mem)
      then have "e' \<noteq> Declared r"
        using freshr by auto
      then show "heap (?s attr f kw') r = heap s r"
        by (cases e') auto
    qed
    from Cons.IH [OF rest dn dr mem] obtain attr2 f2 kw2 where
      b2: "build_field t attrs b fac n (entry_kwargs (heap (?s attr f kw')) e) = Inr (attr2, f2, kw2)"
      and g2: "od_get flds n = Some f2"
      and r2: "od_get (registry s') (type_name t, n) = Some attr2"
      and h2: "\<forall>r. e = Declared r \<longrightarrow> heap s' r = (heap (?s attr f kw') r)\<lparr>kwargs := kw2\<rparr>"
      by blast
    have "heap s' r = (heap s r)\<lparr>kwargs := kw2\<rparr>" if e: "e = Declared r" for r
    proof -
      have "r \<in> set (declared_refs es)"
        using mem e by (auto intro: declared_refs_mem)
      then have "e' \<noteq> Declared r"
        using freshr by auto
      then have "heap (?s attr f kw') r = heap s r"
        by (cases e') auto
      with h2 e show ?thesis by simp
    qed
    with b2 g2 r2 same show ?thesis
      by auto
  qed
qed

subsection \<open>The merge of declared and automatic entries\<close>

lemma ORMField_init_default:
  "ORMField_init (PyStr n) PyNone PyNone PyNone PyNone PyNone None [] c
     = (\<lparr>creation_counter = c, kwargs = [(''model_attr'', PyStr n)]\<rparr>, c + 1)"
  by (simp add: ORMField_init_def OrderedType_init_def)

lemma merge_auto_keys:
  "od_keys (fst (merge_auto names d c))
     = od_keys d @ first_occurrences (filter (\<lambda>n. n \<notin> set (od_keys d)) names)"
proof (induction names arbitrary: d c)
  case Nil
  then show ?case by simp
next
  case (Cons n names)
  show ?case
  proof (cases "n \<in> set (od_keys d)")
    case True
    then show ?thesis by (simp add: Cons.IH)
  next
    case False
    then show ?thesis
      by (simp add: Cons.IH ORMField_init_default od_keys_od_set conj_commute)
  qed
qed

lemma set_od_set_fresh: "k \<notin> set (od_keys d) \<Longrightarrow> set (od_set d k v) = insert (k, v) (set d)"
  by (induction d) (auto simp: od_keys_def)

lemma merge_auto_entries:
  "(n, e) \<in> set (fst (merge_auto names d c)) \<Longrightarrow>
     (n, e) \<in> set d
     \<or> (n \<in> set names \<and> n \<notin> set (od_keys d)
        \<and> (\<exists>cc. e = Created \<lparr>creation_counter = cc, kwargs = [(''model_attr'', PyStr n)]\<rparr>))"
proof (induction names arbitrary: d c)
  case Nil
  then show ?case by simp
next
  case (Cons n' names)
  show ?case
  proof (cases "n' \<in> set (od_keys d)")
    case True
    with Cons.prems have "(n, e) \<in> set (fst (merge_auto names d c))" by simp
    from Cons.IH [OF this] show ?thesis by auto
  next
    case False
    let ?d = "od_set d n' (Created \<lparr>creation_counter = c, kwargs = [(''model_attr'', PyStr n')]\<rparr>)"
    from False Cons.prems have "(n, e) \<in> set (fst (merge_auto names ?d (c + 1)))"
      by (simp add: ORMField_init_default)
    from Cons.IH [OF this] show ?thesis
      using False by (auto simp: set_od_set_fresh od_keys_od_set)
  qed
qed

lemma declared_refs_append: "declared_refs (xs @ ys) = declared_refs xs @ declared_refs ys"
  by (induction xs rule: declared_refs.induct) simp_all

lemma merge_auto_declared_refs: "declared_refs (fst (merge_auto names d c)) = declared_refs d"
proof (induction names arbitrary: d c)
  case Nil
  then show ?case by simp
next
  case (Cons n names)
  then show ?case
    by (simp add: ORMField_init_default od_set_fresh declared_refs_append)
qed

lemma merge_auto_distinct:
  "distinct (od_keys d) \<Longrightarrow> distinct (od_keys (fst (merge_auto names d c)))"
proof (induction names arbitrary: d c)
  case Nil
  then show ?case by simp
next
  case (Cons n names)
  then show ?case
    by (simp add: ORMField_init_default distinct_od_keys_od_set)
qed

lemma merge_auto_get_old:
  "k \<in> set (od_keys d) \<Longrightarrow> od_get (fst (merge_auto names d c)) k = od_get d k"
proof (induction names arbitrary: d c)
  case Nil
  then show ?case by simp
next
  case (Cons n names)
  show ?case
  proof (cases "n \<in> set (od_keys d)")
    case True
    then show ?thesis using Cons by simp
  next
    case False
    with Cons.prems have "k \<noteq> n" by auto
    then show ?thesis
      using False Cons.prems Cons.IH [of "od_set d n (Created \<lparr>creation_counter = c, kwargs = [(''model_attr'', PyStr n)]\<rparr>)" "c + 1"]
      by (simp add: ORMField_init_default od_keys_od_set od_get_od_set)
  qed
qed



lemma declared_refs_memD: "r \<in> set (declared_refs es) \<Longrightarrow> \<exists>n. (n, Declared r) \<in> set es"
  by (induction es rule: declared_refs.induct) auto

lemma distinct_declared_refs: "distinct (map snd es) \<Longrightarrow> distinct (declared_refs es)"
proof (induction es rule: declared_refs.induct)
  case 1
  then show ?case by simp
next
  case (2 n r es)
  then show ?case
    by (auto dest!: declared_refs_memD) (metis image_eqI snd_conv)
next
  case (3 n f es)
  then show ?case by simp
qed

lemma set_od_set_subset: "set (od_set d k v) \<subseteq> insert (k, v) (set d)"
  by (induction d) (auto split: if_splits)

lemma set_od_update_subset: "set (od_update d items) \<subseteq> set d \<union> set items"
proof (induction d items rule: od_update.induct)
  case (1 d)
  then show ?case by simp
next
  case (2 d k v items)
  then show ?case
    using set_od_set_subset [of d k v] by auto
qed

lemma distinct_values_by_keys:
  "distinct (map fst es) \<Longrightarrow>
     (\<And>n1 n2 v. (n1, v) \<in> set es \<Longrightarrow> (n2, v) \<in> set es \<Longrightarrow> n1 = n2) \<Longrightarrow>
     distinct (map snd es)"
proof (induction es)
  case Nil
  then show ?case by simp
next
  case (Cons x es)
  obtain n v where x: "x = (n, v)" by (cases x)
  have "v \<notin> snd ` set es"
  proof
    assume "v \<in> snd ` set es"
    then obtain n' where "(n', v) \<in> set es" by force
    with Cons.prems(2) [of n v n'] have "n = n'" by (simp add: x)
    with \<open>(n', v) \<in> set es\<close> Cons.prems(1) show False
      by (force simp: x)
  qed
  moreover have "distinct (map snd es)"
    using Cons.prems by (intro Cons.IH) (auto simp: x)
  ultimately show ?case by (simp add: x)
qed

lemma OrderedDict_declared_distinct:
  assumes "distinct (map snd items)"
  shows "distinct (declared_refs (OrderedDict (map (\<lambda>item. (fst item, Declared (snd item))) items)))"
proof -
  let ?es = "OrderedDict (map (\<lambda>item. (fst item, Declared (snd item))) items)"
  have sub: "set ?es \<subseteq> set (map (\<lambda>item. (fst item, Declared (snd item))) items)"
    using set_od_update_subset [of "[]" "map (\<lambda>item. (fst item, Declared (snd item))) items"]
    by (simp add: OrderedDict_def)
  have "distinct (map fst ?es)"
    using distinct_od_keys_OrderedDict [of "map (\<lambda>item. (fst item, Declared (snd item))) items"]
    by (simp add: od_keys_def)
  moreover have "n1 = n2" if "(n1, v) \<in> set ?es" "(n2, v) \<in> set ?es" for n1 n2 v
  proof -
    from that(1) sub have "(n1, v) \<in> (\<lambda>item. (fst item, Declared (snd item))) ` set items"
      by auto
    then obtain i1 where i1: "i1 \<in> set items" "(n1, v) = (fst i1, Declared (snd i1))"
      by (rule imageE)
    from that(2) sub have "(n2, v) \<in> (\<lambda>item. (fst item, Declared (snd item))) ` set items"
      by auto
    then obtain i2 where i2: "i2 \<in> set items" "(n2, v) = (fst i2, Declared (snd i2))"
      by (rule imageE)
    note i = i1(1) i2(1) i1(2) i2(2)
    then have "snd i1 = snd i2" by simp
    with assms i(1,2) have "i1 = i2"
      by (metis distinct_map inj_on_def)
    with i show ?thesis by simp
  qed
  ultimately have "distinct (map snd ?es)"
    by (rule distinct_values_by_keys)
  then show ?thesis
    by (rule distinct_declared_refs)
qed

lemma set_first_occurrences: "set (first_occurrences xs) = set xs"
proof (induction xs rule: first_occurrences.induct)
  case 1
  then show ?case by simp
next
  case (2 x xs)
  then show ?case by auto
qed

lemma distinct_auto_orm_field_names:
  "distinct (auto_orm_field_names (all_model_attrs m) only_fields exclude_fields)"
  by (simp add: auto_orm_field_names_def all_model_attrs_def distinct_od_keys_OrderedDict)

lemma set_custom_orm_fields_items [simp]:
  "set (custom_orm_fields_items h t) = set (gathered_orm_fields t)"
  by (simp add: custom_orm_fields_items_def)

lemma construct_fields_Inr:
  assumes "construct_fields cc t m only_fields exclude_fields batching fac s = Inr (flds, s')"
  obtains h1 where
    "set_model_attrs (all_model_attrs m) (type_name t) (custom_orm_fields_items (heap s) t) (heap s)
       = Inr h1"
    "build_fields cc t (all_model_attrs m) batching fac
       (fst (merged_orm_fields (custom_orm_fields_items (heap s) t)
          (auto_orm_field_names (all_model_attrs m) only_fields exclude_fields) (global_counter s)))
       (s\<lparr>heap := h1,
          global_counter := snd (merged_orm_fields (custom_orm_fields_items (heap s) t)
          (auto_orm_field_names (all_model_attrs m) only_fields exclude_fields) (global_counter s))\<rparr>)
       [] = Inr (flds, s')"
  using assms
  by (auto simp: construct_fields_def Let_def split: sum.splits prod.splits)

lemma od_keys_merged_orm_fields:
  "distinct auto_names \<Longrightarrow>
   od_keys (fst (merged_orm_fields items auto_names c))
     = first_occurrences (map fst items) @ filter (\<lambda>n. n \<notin> fst ` set items) auto_names"
proof -
  assume d: "distinct auto_names"
  have k: "od_keys (OrderedDict (map (\<lambda>item. (fst item, Declared (snd item))) items))
      = first_occurrences (map fst items)"
    by (simp add: od_keys_OrderedDict comp_def)
  have "distinct (filter (\<lambda>n. n \<notin> fst ` set items) auto_names)"
    using d by simp
  then show ?thesis
    by (simp add: merged_orm_fields_def merge_auto_keys k set_first_occurrences
        first_occurrences_distinct)
qed

lemma distinct_merged_orm_fields:
  "distinct (map fst (fst (merged_orm_fields items auto_names c)))"
  using merge_auto_distinct [OF distinct_od_keys_OrderedDict]
  by (simp add: merged_orm_fields_def od_keys_def)








subsection \<open>Which declaration of a name is used\<close>

lemma last_filter_holds: "xs \<noteq> [] \<Longrightarrow> P (last xs) \<Longrightarrow> last (filter P xs) = last xs"
  by (induction xs rule: rev_induct) simp_all

lemma sorted_le_last: "sorted xs \<Longrightarrow> y \<in> set xs \<Longrightarrow> y \<le> last xs"
  by (induction xs rule: rev_induct) (auto simp: sorted_append)

lemma map_of_map_snd:
  "map_of (map (\<lambda>item. (fst item, g (snd item))) xs) k = map_option g (map_of xs k)"
  by (induction xs) auto

lemma last_sort_key:
  fixes f :: "'a \<Rightarrow> int"
  assumes "xs \<noteq> []"
  shows "last (sort_key f xs) = last (filter (\<lambda>y. f y = Max (f ` set xs)) xs)"
proof -
  let ?ys = "sort_key f xs"
  have ne: "?ys \<noteq> []"
    using assms by (metis set_sort set_empty)
  have "sorted (map f ?ys)"
    by (rule sorted_sort_key)
  then have "\<forall>y \<in> set (map f ?ys). y \<le> last (map f ?ys)"
    using sorted_le_last by blast
  then have le: "\<forall>y \<in> set xs. f y \<le> f (last ?ys)"
    using ne by (simp add: last_map)
  have "last ?ys \<in> set xs"
    using ne last_in_set [of ?ys] by simp
  with le have "Max (f ` set xs) = f (last ?ys)"
    by (intro Max_eqI) auto
  then have "last (filter (\<lambda>y. f y = Max (f ` set xs)) ?ys) = last ?ys"
    using ne by (intro last_filter_holds) simp_all
  then show ?thesis
    by (simp add: sort_key_stable)
qed

lemma map_of_rev_last:
  "filter (\<lambda>i. fst i = k) xs \<noteq> [] \<Longrightarrow>
     map_of (rev xs) k = Some (snd (last (filter (\<lambda>i. fst i = k) xs)))"
proof (induction xs rule: rev_induct)
  case Nil
  then show ?case by simp
next
  case (snoc a xs)
  then show ?case
    by (cases a) auto
qed

lemma od_get_declared_dict:
  assumes "filter (\<lambda>i. fst i = x) items \<noteq> []"
  shows "od_get (OrderedDict (map (\<lambda>item. (fst item, Declared (snd item))) items)) x
     = Some (Declared (snd (last (filter (\<lambda>i. fst i = x) items))))"
proof -
  have "map_of (rev (map (\<lambda>item. (fst item, Declared (snd item))) items)) x
      = map_option Declared (map_of (rev items) x)"
    using map_of_map_snd [of Declared "rev items" x] by (simp add: rev_map)
  then show ?thesis
    using map_of_rev_last [OF assms] by (simp add: od_get_OrderedDict)
qed

lemma winner_of_sorted:
  assumes "declarations_of t x \<noteq> []"
  shows "last (filter (\<lambda>i. fst i = x) (custom_orm_fields_items h t))
     = (x, greatest_declaration h t x)
   \<and> (x, greatest_declaration h t x) \<in> set (gathered_orm_fields t)"
proof -
  let ?cc = "\<lambda>item. creation_counter (h (snd item))"
  let ?decls = "declarations_of t x"
  let ?w = "last (filter (\<lambda>item. ?cc item = Max (?cc ` set ?decls)) ?decls)"
  have "filter (\<lambda>i. fst i = x) (custom_orm_fields_items h t) = sort_key ?cc ?decls"
    by (simp add: custom_orm_fields_items_def filter_sort declarations_of_def)
  then have l: "last (filter (\<lambda>i. fst i = x) (custom_orm_fields_items h t)) = ?w"
    using last_sort_key [OF assms, of ?cc] by simp
  have "sort_key ?cc ?decls \<noteq> []"
    using assms by (metis set_sort set_empty)
  then have "last (sort_key ?cc ?decls) \<in> set (sort_key ?cc ?decls)"
    by (rule last_in_set)
  then have "?w \<in> set ?decls"
    using last_sort_key [OF assms, of ?cc] by simp
  then have "fst ?w = x" "?w \<in> set (gathered_orm_fields t)"
    by (simp_all add: declarations_of_def)
  then have "?w = (x, greatest_declaration h t x)"
    by (simp add: greatest_declaration_def prod_eq_iff)
  with l \<open>?w \<in> set (gathered_orm_fields t)\<close> show ?thesis by simp
qed

lemma greatest_is_last:
  assumes "declarations_of t x \<noteq> []"
    and "\<forall>item \<in> set (declarations_of t x).
           creation_counter (h (snd item)) \<le> creation_counter (h (snd (last (declarations_of t x))))"
  shows "greatest_declaration h t x = snd (last (declarations_of t x))"
proof -
  let ?cc = "\<lambda>item. creation_counter (h (snd item))"
  let ?decls = "declarations_of t x"
  have "last ?decls \<in> set ?decls"
    using assms(1) by (rule last_in_set)
  with assms(2) have "Max (?cc ` set ?decls) = ?cc (last ?decls)"
    by (intro Max_eqI) auto
  then show ?thesis
    using assms(1) by (simp add: greatest_declaration_def last_filter_holds)
qed

lemma distinct_refs_custom_items:
  "distinct (map snd (gathered_orm_fields t)) \<Longrightarrow>
     distinct (map snd (custom_orm_fields_items h t))"
  by (simp add: custom_orm_fields_items_def distinct_map)

lemma declared_refs_merged_orm_fields:
  "distinct (map snd items) \<Longrightarrow>
     distinct (declared_refs (fst (merged_orm_fields items auto_names c)))"
  by (simp add: merged_orm_fields_def merge_auto_declared_refs OrderedDict_declared_distinct)

lemma od_get_merged_declared:
  assumes "filter (\<lambda>i. fst i = x) items \<noteq> []"
  shows "od_get (fst (merged_orm_fields items auto_names c)) x
     = Some (Declared (snd (last (filter (\<lambda>i. fst i = x) items))))"
proof -
  let ?d = "OrderedDict (map (\<lambda>item. (fst item, Declared (snd item))) items)"
  have g: "od_get ?d x = Some (Declared (snd (last (filter (\<lambda>i. fst i = x) items))))"
    using assms by (rule od_get_declared_dict)
  then have "x \<in> set (od_keys ?d)"
    by (rule od_get_Some_keys)
  then show ?thesis
    using g by (simp add: merged_orm_fields_def merge_auto_get_old)
qed


text \<open>Several declarations under one exposed name, each \<^verbatim>\<open>ORMField\<close> object being declared
  once: the field under that name is built from the options of the declaration that
  \<^const>\<open>greatest_declaration\<close> picks, which is the most derived declaration when no other
  declaration of the name has a greater creation counter.\<close>

lemma greatest_declaration_used:
  assumes ok: "construct_fields cc t m only_fields exclude_fields batching fac s = Inr (flds, s')"
    and refs: "distinct (map snd (gathered_orm_fields t))"
    and decl: "declarations_of t x \<noteq> []"
  shows "(\<exists>attr f kw'.
            build_field t (all_model_attrs m) batching fac x
              (od_set (kwargs (heap s (greatest_declaration (heap s) t x))) ''model_attr''
                 (resolved_attr_name (kwargs (heap s (greatest_declaration (heap s) t x))) x))
              = Inr (attr, f, kw')
          \<and> od_get flds x = Some f)
       \<and> ((\<forall>item \<in> set (declarations_of t x).
              creation_counter (heap s (snd item))
                \<le> creation_counter (heap s (snd (last (declarations_of t x)))))
            \<longrightarrow> greatest_declaration (heap s) t x = snd (last (declarations_of t x)))"
proof -
  let ?items = "custom_orm_fields_items (heap s) t"
  let ?auto = "auto_orm_field_names (all_model_attrs m) only_fields exclude_fields"
  let ?es = "fst (merged_orm_fields ?items ?auto (global_counter s))"
  let ?w = "greatest_declaration (heap s) t x"
  from ok obtain h1 where
    sma: "set_model_attrs (all_model_attrs m) (type_name t) ?items (heap s) = Inr h1" and
    build: "build_fields cc t (all_model_attrs m) batching fac ?es
       (s\<lparr>heap := h1, global_counter := snd (merged_orm_fields ?items ?auto (global_counter s))\<rparr>)
       [] = Inr (flds, s')"
    by (rule construct_fields_Inr)
  have win: "last (filter (\<lambda>i. fst i = x) ?items) = (x, ?w)"
    and mem: "(x, ?w) \<in> set (gathered_orm_fields t)"
    using winner_of_sorted [OF decl, of "heap s"] by simp_all
  have ne: "filter (\<lambda>i. fst i = x) ?items \<noteq> []"
  proof -
    have "set (filter (\<lambda>i. fst i = x) ?items) = set (declarations_of t x)"
      by (simp add: declarations_of_def)
    with decl show ?thesis
      by (metis set_empty)
  qed
  have "od_get ?es x = Some (Declared ?w)"
    using od_get_merged_declared [OF ne, of ?auto "global_counter s"] win by simp
  then have entry: "(x, Declared ?w) \<in> set ?es"
    by (simp add: od_get_def map_of_SomeD)
  have dr: "distinct (map snd ?items)"
    using refs by (rule distinct_refs_custom_items)
  from build_fields_entry [OF build distinct_merged_orm_fields
      declared_refs_merged_orm_fields [OF dr] entry]
  obtain attr f kw' where
    bf: "build_field t (all_model_attrs m) batching fac x (kwargs (h1 ?w)) = Inr (attr, f, kw')"
    and get: "od_get flds x = Some f"
    by (auto simp: entry_kwargs_def)
  have "(x, ?w) \<in> set ?items"
    using mem by simp
  from set_model_attrs_result [OF sma dr this]
  have "kwargs (h1 ?w) = od_set (kwargs (heap s ?w)) ''model_attr''
      (resolved_attr_name (kwargs (heap s ?w)) x)"
    by simp
  with bf get have first: "\<exists>attr f kw'.
            build_field t (all_model_attrs m) batching fac x
              (od_set (kwargs (heap s ?w)) ''model_attr''
                 (resolved_attr_name (kwargs (heap s ?w)) x))
              = Inr (attr, f, kw')
          \<and> od_get flds x = Some f"
    by auto
  show ?thesis
    using first greatest_is_last [OF decl, of "heap s"] by blast
qed

text \<open>\<^bold>\<open>C4.\<close> A base class and a class derived from it both declare an override
  under the exposed name \<open>x\<close>; the claim is that the field under \<open>x\<close> carries the options
  of the derived declaration whatever the two creation counters are. The code, whatever the
  conversions do to the counter, does so when the derived declaration has the greater
  counter (1 against 2) and, through the base-first walk of line 130, when the counters are
  equal (4 and 4); it does not when the base declaration has the greater counter (5 against
  2): the sort of line 134 puts the base declaration last, and the field carries the options
  of the base declaration.\<close>

theorem derived_override_by_counters:
  "map_sum id fst
     (construct_fields cc
       \<lparr>type_name = ''Derived'',
        type_mro = [\<lparr>cls_name = ''Derived'', cls_dict = [(''x'', ORMFieldRef 1)]\<rparr>,
                    \<lparr>cls_name = ''Base'', cls_dict = [(''x'', ORMFieldRef 0)]\<rparr>]\<rparr>
       \<lparr>column_attrs = [(''x'', ColumnProperty ''x'')],
        composites = [], all_orm_descriptors = [], relationships = []\<rparr>
       [] [] (PyBool False) PyNone
       \<lparr>heap = (\<lambda>r. \<lparr>creation_counter = 0, kwargs = []\<rparr>)
            (0 := \<lparr>creation_counter = 1, kwargs = [(''description'', PyStr ''base'')]\<rparr>,
             1 := \<lparr>creation_counter = 2, kwargs = [(''description'', PyStr ''derived'')]\<rparr>),
        global_counter = 3, registry = []\<rparr>)
     = Inr [(''x'', convert_sqlalchemy_column (ColumnProperty ''x'') (AttrResolver ''x'')
                      [(''description'', PyStr ''derived'')])]
   \<and> map_sum id fst
     (construct_fields cc
       \<lparr>type_name = ''Derived'',
        type_mro = [\<lparr>cls_name = ''Derived'', cls_dict = [(''x'', ORMFieldRef 1)]\<rparr>,
                    \<lparr>cls_name = ''Base'', cls_dict = [(''x'', ORMFieldRef 0)]\<rparr>]\<rparr>
       \<lparr>column_attrs = [(''x'', ColumnProperty ''x'')],
        composites = [], all_orm_descriptors = [], relationships = []\<rparr>
       [] [] (PyBool False) PyNone
       \<lparr>heap = (\<lambda>r. \<lparr>creation_counter = 0, kwargs = []\<rparr>)
            (0 := \<lparr>creation_counter = 4, kwargs = [(''description'', PyStr ''base'')]\<rparr>,
             1 := \<lparr>creation_counter = 4, kwargs = [(''description'', PyStr ''derived'')]\<rparr>),
        global_counter = 5, registry = []\<rparr>)
     = Inr [(''x'', convert_sqlalchemy_column (ColumnProperty ''x'') (AttrResolver ''x'')
                      [(''description'', PyStr ''derived'')])]
   \<and> map_sum id fst
     (construct_fields cc
       \<lparr>type_name = ''Derived'',
        type_mro = [\<lparr>cls_name = ''Derived'', cls_dict = [(''x'', ORMFieldRef 1)]\<rparr>,
                    \<lparr>cls_name = ''Base'', cls_dict = [(''x'', ORMFieldRef 0)]\<rparr>]\<rparr>
       \<lparr>column_attrs = [(''x'', ColumnProperty ''x'')],
        composites = [], all_orm_descriptors = [], relationships = []\<rparr>
       [] [] (PyBool False) PyNone
       \<lparr>heap = (\<lambda>r. \<lparr>creation_counter = 0, kwargs = []\<rparr>)
            (0 := \<lparr>creation_counter = 5, kwargs = [(''description'', PyStr ''base'')]\<rparr>,
             1 := \<lparr>creation_counter = 2, kwargs = [(''description'', PyStr ''derived'')]\<rparr>),
        global_counter = 6, registry = []\<rparr>)
     = Inr [(''x'', convert_sqlalchemy_column (ColumnProperty ''x'') (AttrResolver ''x'')
                      [(''description'', PyStr ''base'')])]"
  by code_simp

subsection \<open>Calling \<^verbatim>\<open>construct_fields\<close> a second time\<close>

lemma od_del_idem: "od_del (od_del d k) k = od_del d k"
  by (simp add: od_del_def)

lemma od_del_commute: "od_del (od_del d k) k' = od_del (od_del d k') k"
  by (auto simp: od_del_def intro: filter_cong)

lemma od_get_od_del_same: "od_get (od_del d k) k = None"
  by (simp add: od_get_od_del)

lemma resolved_attr_name_absent:
  "od_get kw ''model_attr'' = None \<Longrightarrow> resolved_attr_name kw n = PyStr n"
  by (simp add: resolved_attr_name_def)

lemma build_field_repeat:
  assumes bf: "build_field t attrs b fac n (od_set kw ''model_attr'' (PyStr n)) = Inr (attr, f, kw')"
    and bat: "(\<exists>rel. od_get attrs n = Some (RelationshipProperty rel)) \<longrightarrow>
                od_get kw ''batching'' \<in> {None, Some b}"
  shows "build_field t attrs b fac n (od_set kw' ''model_attr'' (PyStr n)) = Inr (attr, f, kw')
       \<and> od_get kw' ''model_attr'' = None
       \<and> ((\<exists>rel. od_get attrs n = Some (RelationshipProperty rel)) \<longrightarrow>
             od_get kw' ''batching'' = None)"
proof -
  let ?kw1 = "od_del kw ''model_attr''"
  from bf obtain a where a: "od_get attrs n = Some a"
    by (auto simp: build_field_def od_pop_od_set split: option.splits)
  show ?thesis
  proof (cases a)
    case (ColumnProperty x)
    with bf a have "attr = a" "kw' = ?kw1"
      and "f = convert_sqlalchemy_column a
        (case get_custom_resolver t n of Some r \<Rightarrow> r | None \<Rightarrow> get_attr_resolver t n) ?kw1"
      by (auto simp: build_field_def od_pop_od_set Let_def)
    then show ?thesis
      using a ColumnProperty
      by (simp add: build_field_def od_pop_od_set od_del_idem od_get_od_del)
  next
    case (CompositeProperty x)
    with bf a have "attr = a" "kw' = []" "?kw1 = []"
      and "f = convert_sqlalchemy_composite a
        (case get_custom_resolver t n of Some r \<Rightarrow> r | None \<Rightarrow> get_attr_resolver t n)"
      by (auto simp: build_field_def od_pop_od_set Let_def split: if_splits)
    then show ?thesis
      using a CompositeProperty
      by (simp add: build_field_def od_pop_def od_get_def od_del_def)
  next
    case (RelationshipProperty x)
    with bat a have cases: "od_get kw ''batching'' = None \<or> od_get kw ''batching'' = Some b"
      by auto
    have g1: "od_get ?kw1 ''batching'' = od_get kw ''batching''"
      by (simp add: od_get_od_del)
    let ?kw2 = "od_del ?kw1 ''batching''"
    have kw2: "od_pop_default ?kw1 ''batching'' b = (b, ?kw2)"
      using cases g1 od_get_None_iff [of ?kw1 "''batching''"]
      by (auto simp: od_pop_default_def od_del_absent)
    with bf a RelationshipProperty have r: "attr = a" "kw' = ?kw2"
      "f = convert_sqlalchemy_relationship a (type_name t) fac b n ?kw2"
      by (auto simp: build_field_def od_pop_od_set Let_def)
    have m: "od_del ?kw2 ''model_attr'' = ?kw2"
      by (rule od_del_absent) (simp add: od_keys_od_del)
    have "od_pop_default ?kw2 ''batching'' b = (b, ?kw2)"
      by (simp add: od_pop_default_def od_get_od_del)
    then show ?thesis
      using a RelationshipProperty r m
      by (simp add: build_field_def od_pop_od_set od_get_od_del)
  next
    case (hybrid_property x)
    with bf a have "attr = a" "kw' = ?kw1"
      and "f = convert_sqlalchemy_hybrid_method a
        (case get_custom_resolver t n of Some r \<Rightarrow> r | None \<Rightarrow> get_attr_resolver t n) ?kw1"
      by (auto simp: build_field_def od_pop_od_set Let_def)
    then show ?thesis
      using a hybrid_property
      by (simp add: build_field_def od_pop_od_set od_del_idem od_get_od_del)
  next
    case (OtherDescriptor x)
    with bf a show ?thesis
      by (auto simp: build_field_def od_pop_od_set Let_def)
  qed
qed

lemma set_model_attrs_total:
  "distinct (map snd items) \<Longrightarrow>
     \<forall>item \<in> set items. in_attrs (resolved_attr_name (kwargs (h (snd item))) (fst item)) attrs \<Longrightarrow>
     \<exists>h1. set_model_attrs attrs tn items h = Inr h1"
proof (induction items arbitrary: h)
  case Nil
  then show ?case by simp
next
  case (Cons item items)
  obtain n r where item: "item = (n, r)" by (cases item)
  let ?h = "h(r := (h r)\<lparr>kwargs := od_set (kwargs (h r)) ''model_attr''
                               (resolved_attr_name (kwargs (h r)) n)\<rparr>)"
  from Cons.prems(1) have d: "distinct (map snd items)" and fresh: "r \<notin> snd ` set items"
    by (auto simp: item)
  have "\<forall>item \<in> set items. in_attrs (resolved_attr_name (kwargs (?h (snd item))) (fst item)) attrs"
  proof
    fix i assume i: "i \<in> set items"
    then have "snd i \<noteq> r" using fresh by auto
    then show "in_attrs (resolved_attr_name (kwargs (?h (snd i))) (fst i)) attrs"
      using Cons.prems(2) i by simp
  qed
  from Cons.IH [OF d this] obtain h1 where "set_model_attrs attrs tn items ?h = Inr h1" ..
  moreover have "in_attrs (resolved_attr_name (kwargs (h r)) n) attrs"
    using Cons.prems(2) by (simp add: item)
  ultimately show ?case
    by (simp add: item Let_def)
qed

lemma build_fields_total:
  "distinct (declared_refs es) \<Longrightarrow>
     \<forall>ne \<in> set es. \<exists>res. build_field t attrs b fac (fst ne) (entry_kwargs (heap s) (snd ne)) = Inr res \<Longrightarrow>
     \<exists>flds s'. build_fields cc t attrs b fac es s fds = Inr (flds, s')"
proof (induction es arbitrary: s fds)
  case Nil
  then show ?case by simp
next
  case (Cons ne es)
  obtain n e where ne: "ne = (n, e)" by (cases ne)
  from Cons.prems(2) obtain attr f kw' where
    first: "build_field t attrs b fac n (entry_kwargs (heap s) e) = Inr (attr, f, kw')"
    by (auto simp: ne)
  let ?s = "s\<lparr>heap := (case e of
                     Declared r \<Rightarrow> (heap s)(r := (heap s r)\<lparr>kwargs := kw'\<rparr>)
                   | Created _ \<Rightarrow> heap s),
          registry := register_orm_field (registry s) (type_name t) n attr,
          global_counter := cc f (global_counter s)\<rparr>"
  from Cons.prems(1) have dr: "distinct (declared_refs es)"
    and freshr: "\<And>r. e = Declared r \<Longrightarrow> r \<notin> set (declared_refs es)"
    by (cases e; simp add: ne)+
  have "\<forall>ne \<in> set es. \<exists>res. build_field t attrs b fac (fst ne) (entry_kwargs (heap ?s) (snd ne)) = Inr res"
  proof
    fix x assume x: "x \<in> set es"
    have "entry_kwargs (heap ?s) (snd x) = entry_kwargs (heap s) (snd x)"
    proof (rule entry_kwargs_frame)
      fix r assume e: "snd x = Declared r"
      then have "(fst x, Declared r) \<in> set es"
        using x by (metis prod.collapse)
      then have "r \<in> set (declared_refs es)"
        by (rule declared_refs_mem)
      then have "e \<noteq> Declared r"
        using freshr by auto
      then show "heap ?s r = heap s r"
        by (cases e) auto
    qed
    then show "\<exists>res. build_field t attrs b fac (fst x) (entry_kwargs (heap ?s) (snd x)) = Inr res"
      using Cons.prems(2) x by simp
  qed
  from Cons.IH [OF dr this] obtain flds s' where
    "build_fields cc t attrs b fac es ?s (od_set fds n f) = Inr (flds, s')"
    by blast
  then show ?case
    using first by (cases e) (auto simp: ne entry_kwargs_def Let_def)
qed

lemma build_fields_creation_counter:
  "build_fields cc t attrs b fac es s fds = Inr (flds, s') \<Longrightarrow>
     creation_counter (heap s' r) = creation_counter (heap s r)"
proof (induction es arbitrary: s fds)
  case Nil
  then show ?case by simp
next
  case (Cons ne es)
  obtain n e where ne: "ne = (n, e)" by (cases ne)
  from Cons.prems(1) obtain attr f kw' where
    rest: "build_fields cc t attrs b fac es
       (s\<lparr>heap := (case e of
                     Declared r \<Rightarrow> (heap s)(r := (heap s r)\<lparr>kwargs := kw'\<rparr>)
                   | Created _ \<Rightarrow> heap s),
          registry := register_orm_field (registry s) (type_name t) n attr,
          global_counter := cc f (global_counter s)\<rparr>)
       (od_set fds n f) = Inr (flds, s')"
    unfolding ne by (rule build_fields_Cons_Inr)
  from Cons.IH [OF rest] show ?case
    by (cases e) auto
qed

lemma build_fields_registry_fixed:
  "build_fields cc t attrs b fac es s fds = Inr (flds, s') \<Longrightarrow>
     distinct (declared_refs es) \<Longrightarrow>
     \<forall>ne \<in> set es. \<forall>attr f kw'.
        build_field t attrs b fac (fst ne) (entry_kwargs (heap s) (snd ne)) = Inr (attr, f, kw')
        \<longrightarrow> od_get (registry s) (type_name t, fst ne) = Some attr \<Longrightarrow>
     registry s' = registry s"
proof (induction es arbitrary: s fds)
  case Nil
  then show ?case by simp
next
  case (Cons ne es)
  obtain n e where ne: "ne = (n, e)" by (cases ne)
  let ?s = "\<lambda>attr f kw'. s\<lparr>heap := (case e of
                     Declared r \<Rightarrow> (heap s)(r := (heap s r)\<lparr>kwargs := kw'\<rparr>)
                   | Created _ \<Rightarrow> heap s),
          registry := register_orm_field (registry s) (type_name t) n attr,
          global_counter := cc f (global_counter s)\<rparr>"
  from Cons.prems(1) obtain attr f kw' where
    first: "build_field t attrs b fac n (entry_kwargs (heap s) e) = Inr (attr, f, kw')" and
    rest: "build_fields cc t attrs b fac es (?s attr f kw') (od_set fds n f) = Inr (flds, s')"
    unfolding ne by (rule build_fields_Cons_Inr)
  from Cons.prems(3) first have "od_get (registry s) (type_name t, n) = Some attr"
    by (auto simp: ne)
  then have reg: "registry (?s attr f kw') = registry s"
    by (simp add: register_orm_field_def od_set_same)
  from Cons.prems(2) have dr: "distinct (declared_refs es)"
    and freshr: "\<And>r. e = Declared r \<Longrightarrow> r \<notin> set (declared_refs es)"
    by (cases e; simp add: ne)+
  have "\<forall>ne \<in> set es. \<forall>attr' f' kw''.
        build_field t attrs b fac (fst ne) (entry_kwargs (heap (?s attr f kw')) (snd ne)) = Inr (attr', f', kw'')
        \<longrightarrow> od_get (registry (?s attr f kw')) (type_name t, fst ne) = Some attr'"
  proof
    fix x assume x: "x \<in> set es"
    have "entry_kwargs (heap (?s attr f kw')) (snd x) = entry_kwargs (heap s) (snd x)"
    proof (rule entry_kwargs_frame)
      fix r assume e: "snd x = Declared r"
      then have "(fst x, Declared r) \<in> set es"
        using x by (metis prod.collapse)
      then have "r \<in> set (declared_refs es)"
        by (rule declared_refs_mem)
      then have "e \<noteq> Declared r"
        using freshr by auto
      then show "heap (?s attr f kw') r = heap s r"
        by (cases e) auto
    qed
    then show "\<forall>attr' f' kw''.
        build_field t attrs b fac (fst x) (entry_kwargs (heap (?s attr f kw')) (snd x)) = Inr (attr', f', kw'')
        \<longrightarrow> od_get (registry (?s attr f kw')) (type_name t, fst x) = Some attr'"
      using Cons.prems(3) x reg by simp
  qed
  from Cons.IH [OF rest dr this] reg show ?case by simp
qed

lemma odict_eqI:
  "distinct (od_keys xs) \<Longrightarrow> od_keys xs = od_keys ys \<Longrightarrow>
     (\<And>k. k \<in> set (od_keys xs) \<Longrightarrow> od_get xs k = od_get ys k) \<Longrightarrow> xs = ys"
proof (induction xs arbitrary: ys)
  case Nil
  then show ?case by (simp add: od_keys_def)
next
  case (Cons x xs)
  obtain k v where x: "x = (k, v)" by (cases x)
  from Cons.prems(2) obtain v' ys' where ys: "ys = (k, v') # ys'" and keys: "od_keys xs = od_keys ys'"
    by (cases ys) (auto simp: od_keys_def x)
  from Cons.prems(3) [of k] have v: "v' = v"
    by (simp add: od_keys_def od_get_def x ys)
  have "xs = ys'"
  proof (rule Cons.IH)
    show "distinct (od_keys xs)" using Cons.prems(1) by (simp add: od_keys_def)
    show "od_keys xs = od_keys ys'" by (rule keys)
    fix k' assume k': "k' \<in> set (od_keys xs)"
    then have "k' \<noteq> k" using Cons.prems(1) by (auto simp: od_keys_def x)
    with Cons.prems(3) [of k'] k' show "od_get xs k' = od_get ys' k'"
      by (simp add: od_keys_def od_get_def x ys)
  qed
  with v show ?case by (simp add: x ys)
qed

lemma set_model_attrs_only_kwargs:
  "set_model_attrs attrs tn items h = Inr h1 \<Longrightarrow> \<exists>kw. h1 r = (h r)\<lparr>kwargs := kw\<rparr>"
proof (induction items arbitrary: h)
  case Nil
  have "h r = (h r)\<lparr>kwargs := kwargs (h r)\<rparr>" by simp
  with Nil show ?case by (metis set_model_attrs.simps(1) sum.inject(2))
next
  case (Cons item items)
  obtain n r' where item: "item = (n, r')" by (cases item)
  let ?h = "h(r' := (h r')\<lparr>kwargs := od_set (kwargs (h r')) ''model_attr''
                               (resolved_attr_name (kwargs (h r')) n)\<rparr>)"
  from Cons.prems have "set_model_attrs attrs tn items ?h = Inr h1"
    by (auto simp: item Let_def split: if_splits)
  from Cons.IH [OF this] obtain kw where "h1 r = (?h r)\<lparr>kwargs := kw\<rparr>" ..
  then have "h1 r = (h r)\<lparr>kwargs := kw\<rparr>"
    by (cases "r = r'") simp_all
  then show ?case ..
qed

lemma custom_orm_fields_items_cong:
  "(\<And>r. creation_counter (h' r) = creation_counter (h r)) \<Longrightarrow>
     custom_orm_fields_items h' t = custom_orm_fields_items h t"
  by (simp add: custom_orm_fields_items_def)

lemma declared_dict_entry:
  assumes "(n, e) \<in> set (OrderedDict (map (\<lambda>item. (fst item, Declared (snd item))) items))"
  obtains r where "e = Declared r" "(n, r) \<in> set items"
proof -
  from assms set_od_update_subset [of "[]" "map (\<lambda>item. (fst item, Declared (snd item))) items"]
  have "(n, e) \<in> (\<lambda>item. (fst item, Declared (snd item))) ` set items"
    by (auto simp: OrderedDict_def)
  then obtain i where "i \<in> set items" "(n, e) = (fst i, Declared (snd i))"
    by (rule imageE)
  then have "e = Declared (snd i)" "(n, snd i) \<in> set items"
    by simp_all
  then show thesis by (rule that)
qed

lemma od_get_of_mem: "distinct (od_keys d) \<Longrightarrow> (k, v) \<in> set d \<Longrightarrow> od_get d k = Some v"
  by (simp add: od_get_def od_keys_def)

lemma od_mem_of_get: "od_get d k = Some v \<Longrightarrow> (k, v) \<in> set d"
  by (simp add: od_get_def map_of_SomeD)

lemma od_keys_mem: "k \<in> set (od_keys d) \<Longrightarrow> \<exists>v. (k, v) \<in> set d"
  by (auto simp: od_keys_def)

lemma od_mem_keys: "(k, v) \<in> set d \<Longrightarrow> k \<in> set (od_keys d)"
  by (force simp: od_keys_def)

text \<open>Entries of the merged dictionary do not depend on the counter, up to the counter of
  the created objects.\<close>

lemma merged_entry_transfer:
  assumes "(n, e2) \<in> set (fst (merged_orm_fields items auto_names c2))"
    and "distinct auto_names"
  shows "\<exists>e1. (n, e1) \<in> set (fst (merged_orm_fields items auto_names c1))
            \<and> ((\<exists>r. e1 = Declared r \<and> e2 = Declared r \<and> (n, r) \<in> set items)
               \<or> (\<exists>f1 f2. e1 = Created f1 \<and> e2 = Created f2 \<and> kwargs f1 = kwargs f2))"
proof -
  let ?d = "OrderedDict (map (\<lambda>item. (fst item, Declared (snd item))) items)"
  from assms(1) have "(n, e2) \<in> set (fst (merge_auto auto_names ?d c2))"
    by (simp add: merged_orm_fields_def)
  from merge_auto_entries [OF this] show ?thesis
  proof
    assume mem: "(n, e2) \<in> set ?d"
    then obtain r where r: "e2 = Declared r" "(n, r) \<in> set items"
      by (rule declared_dict_entry)
    have "od_get ?d n = Some e2"
      using distinct_od_keys_OrderedDict mem by (rule od_get_of_mem)
    moreover have "n \<in> set (od_keys ?d)"
      using mem by (rule od_mem_keys)
    ultimately have "od_get (fst (merged_orm_fields items auto_names c1)) n = Some e2"
      by (simp add: merged_orm_fields_def merge_auto_get_old)
    then have "(n, e2) \<in> set (fst (merged_orm_fields items auto_names c1))"
      by (rule od_mem_of_get)
    with r show ?thesis by auto
  next
    assume new: "n \<in> set auto_names \<and> n \<notin> set (od_keys ?d)
        \<and> (\<exists>cc. e2 = Created \<lparr>creation_counter = cc, kwargs = [(''model_attr'', PyStr n)]\<rparr>)"
    then have "n \<in> set (od_keys (fst (merge_auto auto_names ?d c1)))"
      by (simp add: merge_auto_keys set_first_occurrences)
    then obtain e1 where e1: "(n, e1) \<in> set (fst (merge_auto auto_names ?d c1))"
      by (auto dest: od_keys_mem)
    from merge_auto_entries [OF e1] new
    have "\<exists>cc. e1 = Created \<lparr>creation_counter = cc, kwargs = [(''model_attr'', PyStr n)]\<rparr>"
      by (auto dest: od_mem_keys)
    with new e1 show ?thesis
      by (auto simp: merged_orm_fields_def)
  qed
qed

lemma merged_declared_is_item:
  assumes "(n, Declared r) \<in> set (fst (merged_orm_fields items auto_names c))"
  shows "(n, r) \<in> set items"
proof -
  let ?d = "OrderedDict (map (\<lambda>item. (fst item, Declared (snd item))) items)"
  from assms have "(n, Declared r) \<in> set (fst (merge_auto auto_names ?d c))"
    by (simp add: merged_orm_fields_def)
  from merge_auto_entries [OF this] have "(n, Declared r) \<in> set ?d"
    by auto
  then show ?thesis
    by (rule declared_dict_entry) simp
qed

lemma merged_declared_refs_const:
  "declared_refs (fst (merged_orm_fields items auto_names c))
     = declared_refs (fst (merged_orm_fields items auto_names c'))"
  by (simp add: merged_orm_fields_def merge_auto_declared_refs)

text \<open>When every \<^verbatim>\<open>ORMField\<close> object is declared once along the \<^verbatim>\<open>__mro__\<close>, carries no
  \<^verbatim>\<open>model_attr\<close> other than its own exposed name and, where its name is a relationship, no
  \<^verbatim>\<open>batching\<close> other than the type's default, a second call with the same arguments, on
  the state a first call returned, returns the same ordered field mapping and leaves the
  declared objects and the registry as the first call left them; the process-wide counter
  alone may differ. The condition on the overrides holds again afterwards.\<close>

lemma second_call_same_fields:
  assumes ok: "construct_fields cc t m only_fields exclude_fields batching fac s = Inr (flds, s1)"
    and rep: "repeatable_overrides (heap s) t (all_model_attrs m) batching"
  shows "(\<exists>c. construct_fields cc t m only_fields exclude_fields batching fac s1
              = Inr (flds, s1\<lparr>global_counter := c\<rparr>))
       \<and> repeatable_overrides (heap s1) t (all_model_attrs m) batching"
proof -
  let ?attrs = "all_model_attrs m"
  let ?G = "gathered_orm_fields t"
  let ?items = "custom_orm_fields_items (heap s) t"
  let ?auto = "auto_orm_field_names ?attrs only_fields exclude_fields"
  let ?es1 = "fst (merged_orm_fields ?items ?auto (global_counter s))"
  let ?c1 = "snd (merged_orm_fields ?items ?auto (global_counter s))"
  let ?sA = "\<lambda>h1. s\<lparr>heap := h1, global_counter := ?c1\<rparr>"
  from ok obtain h1 where
    sma1: "set_model_attrs ?attrs (type_name t) ?items (heap s) = Inr h1" and
    build1: "build_fields cc t ?attrs batching fac ?es1 (?sA h1) [] = Inr (flds, s1)"
    by (rule construct_fields_Inr)
  from rep have dG: "distinct (map snd ?G)"
    and repG: "\<And>n r. (n, r) \<in> set ?G \<Longrightarrow>
        resolved_attr_name (kwargs (heap s r)) n = PyStr n
        \<and> ((\<exists>rel. od_get ?attrs n = Some (RelationshipProperty rel)) \<longrightarrow>
             od_get (kwargs (heap s r)) ''batching'' \<in> {None, Some batching})"
    by (auto simp: repeatable_overrides_def)
  have dI: "distinct (map snd ?items)"
    using dG by (rule distinct_refs_custom_items)
  have dauto: "distinct ?auto"
    by (rule distinct_auto_orm_field_names)
  have dn1: "distinct (map fst ?es1)"
    by (rule distinct_merged_orm_fields)
  have dr1: "distinct (declared_refs ?es1)"
    using dI by (rule declared_refs_merged_orm_fields)

  text \<open>The first call leaves the counters of the objects alone.\<close>
  have cc: "creation_counter (heap s1 r) = creation_counter (heap s r)" for r
    using build_fields_creation_counter [OF build1, of r] set_model_attrs_counter [OF sma1, of r]
    by simp
  have items2: "custom_orm_fields_items (heap s1) t = ?items"
    using cc by (rule custom_orm_fields_items_cong)

  text \<open>What the first pass did to a declared object.\<close>
  have h1: "in_attrs (PyStr n) ?attrs
      \<and> h1 r = (heap s r)\<lparr>kwargs := od_set (kwargs (heap s r)) ''model_attr'' (PyStr n)\<rparr>"
    if "(n, r) \<in> set ?items" for n r
    using set_model_attrs_result [OF sma1 dI that] repG [of n r] that by simp

  text \<open>What the first call did to an object that is used (a winner).\<close>
  have winner: "\<exists>attr f kw'.
        build_field t ?attrs batching fac n (od_set kw' ''model_attr'' (PyStr n)) = Inr (attr, f, kw')
      \<and> od_get flds n = Some f
      \<and> od_get (registry s1) (type_name t, n) = Some attr
      \<and> kwargs (heap s1 r) = kw'
      \<and> od_get kw' ''model_attr'' = None
      \<and> ((\<exists>rel. od_get ?attrs n = Some (RelationshipProperty rel)) \<longrightarrow>
             od_get kw' ''batching'' = None)"
    if mem: "(n, Declared r) \<in> set ?es1" for n r
  proof -
    have it: "(n, r) \<in> set ?items"
      using mem by (rule merged_declared_is_item)
    from build_fields_entry [OF build1 dn1 dr1 mem] obtain attr f kw' where
      bf: "build_field t ?attrs batching fac n (kwargs (h1 r)) = Inr (attr, f, kw')"
      and g: "od_get flds n = Some f"
      and reg: "od_get (registry s1) (type_name t, n) = Some attr"
      and hp: "heap s1 r = (h1 r)\<lparr>kwargs := kw'\<rparr>"
      by (auto simp: entry_kwargs_def)
    from bf h1 [OF it] have bf': "build_field t ?attrs batching fac n
        (od_set (kwargs (heap s r)) ''model_attr'' (PyStr n)) = Inr (attr, f, kw')"
      by simp
    have "(n, r) \<in> set ?G"
      using it by simp
    from build_field_repeat [OF bf'] repG [OF this] g reg hp show ?thesis
      by auto
  qed

  text \<open>What the first call did to a declared object that is not used (a loser).\<close>
  have loser: "kwargs (heap s1 r) = od_set (kwargs (heap s r)) ''model_attr'' (PyStr n)"
    if "(n, r) \<in> set ?items" "r \<notin> set (declared_refs ?es1)" for n r
    using build_fields_frame [OF build1 that(2)] h1 [OF that(1)] by simp

  text \<open>Either way the object resolves to its own name again.\<close>
  have resolved2: "resolved_attr_name (kwargs (heap s1 r)) n = PyStr n"
    and batching2: "(\<exists>rel. od_get ?attrs n = Some (RelationshipProperty rel)) \<longrightarrow>
             od_get (kwargs (heap s1 r)) ''batching'' \<in> {None, Some batching}"
    if it: "(n, r) \<in> set ?items" for n r
  proof -
    show "resolved_attr_name (kwargs (heap s1 r)) n = PyStr n"
    proof (cases "r \<in> set (declared_refs ?es1)")
      case True
      then obtain n' where m: "(n', Declared r) \<in> set ?es1"
        by (auto dest: declared_refs_memD)
      then have "(n', r) \<in> set ?items"
        by (rule merged_declared_is_item)
      with it dI have "n' = n"
        by (metis eq_key_imp_eq_value distinct_map inj_on_def prod.inject snd_conv)
      with winner [OF m] show ?thesis
        by (auto simp: resolved_attr_name_def)
    next
      case False
      from loser [OF it False] show ?thesis
        by (simp add: resolved_attr_name_def od_get_od_set)
    qed
    show "(\<exists>rel. od_get ?attrs n = Some (RelationshipProperty rel)) \<longrightarrow>
             od_get (kwargs (heap s1 r)) ''batching'' \<in> {None, Some batching}"
    proof (cases "r \<in> set (declared_refs ?es1)")
      case True
      then obtain n' where m: "(n', Declared r) \<in> set ?es1"
        by (auto dest: declared_refs_memD)
      then have "(n', r) \<in> set ?items"
        by (rule merged_declared_is_item)
      with it dI have "n' = n"
        by (metis eq_key_imp_eq_value distinct_map inj_on_def prod.inject snd_conv)
      with winner [OF m] show ?thesis
        by auto
    next
      case False
      have "(n, r) \<in> set ?G" using it by simp
      from loser [OF it False] repG [OF this] show ?thesis
        by (simp add: od_get_od_set)
    qed
  qed

  text \<open>The second call: the first pass.\<close>
  have "\<forall>item \<in> set ?items.
      in_attrs (resolved_attr_name (kwargs (heap s1 (snd item))) (fst item)) ?attrs"
  proof
    fix item assume "item \<in> set ?items"
    then have i: "(fst item, snd item) \<in> set ?items" by simp
    from resolved2 [OF i] h1 [OF i]
    show "in_attrs (resolved_attr_name (kwargs (heap s1 (snd item))) (fst item)) ?attrs"
      by simp
  qed
  from set_model_attrs_total [OF dI this] obtain h2 where
    sma2: "set_model_attrs ?attrs (type_name t) ?items (heap s1) = Inr h2"
    by blast
  have h2: "h2 r = (heap s1 r)\<lparr>kwargs := od_set (kwargs (heap s1 r)) ''model_attr'' (PyStr n)\<rparr>"
    if "(n, r) \<in> set ?items" for n r
    using set_model_attrs_result [OF sma2 dI that] resolved2 [OF that] by simp

  text \<open>The second call: the entries and what each of them builds.\<close>
  let ?es2 = "fst (merged_orm_fields ?items ?auto (global_counter s1))"
  let ?c2 = "snd (merged_orm_fields ?items ?auto (global_counter s1))"
  let ?sB = "s1\<lparr>heap := h2, global_counter := ?c2\<rparr>"
  have dn2: "distinct (map fst ?es2)"
    by (rule distinct_merged_orm_fields)
  have dr2: "distinct (declared_refs ?es2)"
    using dI by (rule declared_refs_merged_orm_fields)
  have entry2: "\<exists>attr f kw'.
        build_field t ?attrs batching fac n (entry_kwargs h2 e2) = Inr (attr, f, kw')
      \<and> od_get flds n = Some f
      \<and> od_get (registry s1) (type_name t, n) = Some attr
      \<and> (\<forall>r. e2 = Declared r \<longrightarrow> kwargs (heap s1 r) = kw')"
    if mem: "(n, e2) \<in> set ?es2" for n e2
  proof -
    from merged_entry_transfer [OF mem dauto, of "global_counter s"] obtain e1 where
      e1: "(n, e1) \<in> set ?es1" and
      rel: "(\<exists>r. e1 = Declared r \<and> e2 = Declared r \<and> (n, r) \<in> set ?items)
               \<or> (\<exists>f1 f2. e1 = Created f1 \<and> e2 = Created f2 \<and> kwargs f1 = kwargs f2)"
      by blast
    from rel show ?thesis
    proof
      assume "\<exists>r. e1 = Declared r \<and> e2 = Declared r \<and> (n, r) \<in> set ?items"
      then obtain r where r: "e1 = Declared r" "e2 = Declared r" "(n, r) \<in> set ?items"
        by blast
      from e1 r(1) have "(n, Declared r) \<in> set ?es1" by simp
      from winner [OF this] h2 [OF r(3)] r(2) show ?thesis
        by (auto simp: entry_kwargs_def)
    next
      assume "\<exists>f1 f2. e1 = Created f1 \<and> e2 = Created f2 \<and> kwargs f1 = kwargs f2"
      then obtain f1 f2 where f: "e1 = Created f1" "e2 = Created f2" "kwargs f1 = kwargs f2"
        by blast
      from build_fields_entry [OF build1 dn1 dr1 e1] f show ?thesis
        by (auto simp: entry_kwargs_def)
    qed
  qed
  have "\<forall>ne \<in> set ?es2. \<exists>res.
      build_field t ?attrs batching fac (fst ne) (entry_kwargs (heap ?sB) (snd ne)) = Inr res"
  proof
    fix ne assume "ne \<in> set ?es2"
    then have "(fst ne, snd ne) \<in> set ?es2" by simp
    from entry2 [OF this]
    show "\<exists>res. build_field t ?attrs batching fac (fst ne) (entry_kwargs (heap ?sB) (snd ne)) = Inr res"
      by auto
  qed
  from build_fields_total [OF dr2 this] obtain flds2 s2 where
    build2: "build_fields cc t ?attrs batching fac ?es2 ?sB [] = Inr (flds2, s2)"
    by blast

  text \<open>The fields of the second call.\<close>
  have keys_es: "od_keys ?es2 = od_keys ?es1"
    by (simp add: od_keys_merged_orm_fields [OF dauto])
  have keys2: "od_keys flds2 = od_keys ?es2"
    using build_fields_keys [OF build2] dn2
    by (simp add: first_occurrences_distinct) (simp add: od_keys_def)
  have keys1: "od_keys flds = od_keys ?es1"
    using build_fields_keys [OF build1] dn1
    by (simp add: first_occurrences_distinct) (simp add: od_keys_def)
  have "flds2 = flds"
  proof (rule odict_eqI)
    show "distinct (od_keys flds2)"
      using dn2 keys2 by (simp add: od_keys_def)
    show "od_keys flds2 = od_keys flds"
      by (simp add: keys1 keys2 keys_es)
    fix k assume "k \<in> set (od_keys flds2)"
    then obtain e2 where mem: "(k, e2) \<in> set ?es2"
      unfolding keys2 by (auto dest: od_keys_mem)
    from build_fields_entry [OF build2 dn2 dr2 mem] entry2 [OF mem]
    show "od_get flds2 k = od_get flds k"
      by auto
  qed

  text \<open>The state after the second call.\<close>
  have reg2: "registry s2 = registry s1"
  proof -
    have "\<forall>ne \<in> set ?es2. \<forall>attr f kw'.
        build_field t ?attrs batching fac (fst ne) (entry_kwargs (heap ?sB) (snd ne)) = Inr (attr, f, kw')
        \<longrightarrow> od_get (registry ?sB) (type_name t, fst ne) = Some attr"
    proof
      fix ne assume "ne \<in> set ?es2"
      then have "(fst ne, snd ne) \<in> set ?es2" by simp
      from entry2 [OF this]
      show "\<forall>attr f kw'.
        build_field t ?attrs batching fac (fst ne) (entry_kwargs (heap ?sB) (snd ne)) = Inr (attr, f, kw')
        \<longrightarrow> od_get (registry ?sB) (type_name t, fst ne) = Some attr"
        by auto
    qed
    from build_fields_registry_fixed [OF build2 dr2 this] show ?thesis by simp
  qed
  have heap2: "heap s2 r = heap s1 r" for r
  proof (cases "r \<in> set (declared_refs ?es2)")
    case True
    then obtain n where mem: "(n, Declared r) \<in> set ?es2"
      by (auto dest: declared_refs_memD)
    from build_fields_entry [OF build2 dn2 dr2 mem] entry2 [OF mem]
    have "heap s2 r = (h2 r)\<lparr>kwargs := kwargs (heap s1 r)\<rparr>"
      by (auto simp: entry_kwargs_def)
    moreover obtain kw where "h2 r = (heap s1 r)\<lparr>kwargs := kw\<rparr>"
      using set_model_attrs_only_kwargs [OF sma2, of r] by blast
    ultimately show ?thesis by simp
  next
    case False
    then have f2: "heap s2 r = h2 r"
      using build_fields_frame [OF build2] by simp
    show ?thesis
    proof (cases "r \<in> snd ` set ?items")
      case True
      then obtain n where it: "(n, r) \<in> set ?items" by force
      from False have "r \<notin> set (declared_refs ?es1)"
        using merged_declared_refs_const [of ?items ?auto "global_counter s" "global_counter s1"]
        by simp
      from loser [OF it this]
      have "od_get (kwargs (heap s1 r)) ''model_attr'' = Some (PyStr n)"
        by (simp add: od_get_od_set)
      then have "od_set (kwargs (heap s1 r)) ''model_attr'' (PyStr n) = kwargs (heap s1 r)"
        by (rule od_set_same)
      with h2 [OF it] f2 show ?thesis by simp
    next
      case False
      from set_model_attrs_frame [OF sma2 False] f2 show ?thesis by simp
    qed
  qed
  have s2: "s2 = s1\<lparr>global_counter := global_counter s2\<rparr>"
    using reg2 heap2 by (intro state.equality) (auto intro: ext)

  text \<open>The second call itself.\<close>
  have second: "construct_fields cc t m only_fields exclude_fields batching fac s1 = Inr (flds2, s2)"
    using sma2 build2
    by (auto simp: construct_fields_def Let_def items2 split: prod.splits)
  have "repeatable_overrides (heap s1) t ?attrs batching"
    unfolding repeatable_overrides_def
  proof (intro conjI ballI)
    show "distinct (map snd ?G)" by (rule dG)
    fix item assume "item \<in> set ?G"
    then have i: "(fst item, snd item) \<in> set ?items" by simp
    from resolved2 [OF i]
    show "resolved_attr_name (kwargs (heap s1 (snd item))) (fst item) = PyStr (fst item)" .
    from batching2 [OF i]
    show "(\<exists>rel. od_get ?attrs (fst item) = Some (RelationshipProperty rel)) \<longrightarrow>
             od_get (kwargs (heap s1 (snd item))) ''batching'' \<in> {None, Some batching}" .
  qed
  moreover have "construct_fields cc t m only_fields exclude_fields batching fac s1
      = Inr (flds, s1\<lparr>global_counter := global_counter s2\<rparr>)"
    using second \<open>flds2 = flds\<close> s2 by simp
  ultimately show ?thesis by blast
qed

text \<open>\<^bold>\<open>C1.\<close> The claim is that two calls of \<^verbatim>\<open>construct_fields\<close> with the same
  arguments, the same declared \<^verbatim>\<open>ORMField\<close> objects included, return equal ordered field
  mappings. The code, with the override \<^verbatim>\<open>foo = ORMField(model_attr="a")\<close> declared on
  the type \<open>T\<close> and a model with the column \<open>a\<close>, whatever the conversions do to the
  counter: the first call returns the fields \<open>foo\<close> and \<open>a\<close>, both resolved from the column
  \<open>a\<close>, and leaves the declared object without its \<^verbatim>\<open>model_attr\<close> (the pop of line 156);
  the second call with the same arguments then looks for an attribute \<open>foo\<close> and raises, and
  so does a call for a type \<open>T2\<close> derived from \<open>T\<close>, which finds the same object through
  the \<^verbatim>\<open>__mro__\<close>.\<close>

theorem second_call_after_model_attr:
  "(case construct_fields cc
       \<lparr>type_name = ''T'', type_mro = [\<lparr>cls_name = ''T'', cls_dict = [(''foo'', ORMFieldRef 0)]\<rparr>]\<rparr>
       \<lparr>column_attrs = [(''a'', ColumnProperty ''a'')],
        composites = [], all_orm_descriptors = [], relationships = []\<rparr>
       [] [] (PyBool False) PyNone
       \<lparr>heap = (\<lambda>r. \<lparr>creation_counter = 1, kwargs = [(''model_attr'', PyStr ''a'')]\<rparr>),
        global_counter = 2, registry = []\<rparr> of
      Inl e \<Rightarrow> False
    | Inr (flds, s1) \<Rightarrow>
        flds = [(''foo'', convert_sqlalchemy_column (ColumnProperty ''a'') (AttrResolver ''a'') []),
                (''a'', convert_sqlalchemy_column (ColumnProperty ''a'') (AttrResolver ''a'') [])]
      \<and> kwargs (heap s1 0) = []
      \<and> map_sum id fst (construct_fields cc
           \<lparr>type_name = ''T'', type_mro = [\<lparr>cls_name = ''T'', cls_dict = [(''foo'', ORMFieldRef 0)]\<rparr>]\<rparr>
           \<lparr>column_attrs = [(''a'', ColumnProperty ''a'')],
            composites = [], all_orm_descriptors = [], relationships = []\<rparr>
           [] [] (PyBool False) PyNone s1)
          = Inl (ValueError (cannot_map_message ''T'' ''foo''))
      \<and> map_sum id fst (construct_fields cc
           \<lparr>type_name = ''T2'',
            type_mro = [\<lparr>cls_name = ''T2'', cls_dict = []\<rparr>,
                        \<lparr>cls_name = ''T'', cls_dict = [(''foo'', ORMFieldRef 0)]\<rparr>]\<rparr>
           \<lparr>column_attrs = [(''a'', ColumnProperty ''a'')],
            composites = [], all_orm_descriptors = [], relationships = []\<rparr>
           [] [] (PyBool False) PyNone s1)
          = Inl (ValueError (cannot_map_message ''T2'' ''foo'')))"
  by code_simp

end
